theory Spec2Isabelle
  imports Main
begin

section \<open>Errors and time\<close>

text \<open>
  Go errors are values. \<open>Err msg\<close> is an error created with a message, \<open>Wrap msg e\<close> is
  \<open>fmt.Errorf("msg: %w", e)\<close>.
\<close>

datatype error = Err string | Wrap string error

text \<open>
  Instants and durations are counted in nanoseconds. \<open>time.Time.Sub\<close> saturates at the
  bounds of a 64-bit duration; \<open>time.Since t\<close> is \<open>Sub\<close> from the current instant, which
  the model takes as an argument.
\<close>

definition maxDuration :: int where
  "maxDuration = 2 ^ 63 - 1"

definition minDuration :: int where
  "minDuration = - (2 ^ 63)"

definition time_Sub :: "int \<Rightarrow> int \<Rightarrow> int" where
  "time_Sub t u =
     (let d = t - u
      in if d > maxDuration then maxDuration
         else if d < minDuration then minDuration
         else d)"

definition time_Since :: "int \<Rightarrow> int \<Rightarrow> int" where
  "time_Since now t = time_Sub now t"

section \<open>Package cache: ResultCache\<close>

record cacheEntry =
  entry_value :: string
  entry_timestamp :: int
  entry_etag :: string

record ResultCache =
  results :: "string \<rightharpoonup> cacheEntry"
  result_ttl :: int

definition NewResultCache :: "int \<Rightarrow> ResultCache" where
  "NewResultCache ttl = \<lparr>results = Map.empty, result_ttl = ttl\<rparr>"

text \<open>\<open>ResultCache.Get\<close>; the last argument is the instant of the call.\<close>

definition ResultCache_Get :: "ResultCache \<Rightarrow> string \<Rightarrow> string \<Rightarrow> int \<Rightarrow> string \<times> bool" where
  "ResultCache_Get c key etag now =
     (case results c key of
        None \<Rightarrow> ('''', False)
      | Some entry \<Rightarrow>
          if entry_etag entry \<noteq> etag \<or> time_Since now (entry_timestamp entry) > result_ttl c
          then ('''', False)
          else (entry_value entry, True))"

text \<open>\<open>ResultCache.Set\<close>; the last argument is \<open>time.Now()\<close>.\<close>

definition ResultCache_Set :: "ResultCache \<Rightarrow> string \<Rightarrow> string \<Rightarrow> string \<Rightarrow> int \<Rightarrow> ResultCache" where
  "ResultCache_Set c key val etag now =
     c\<lparr>results := (results c)(key \<mapsto>
          \<lparr>entry_value = val, entry_timestamp = now, entry_etag = etag\<rparr>)\<rparr>"

section \<open>Package cache: ZipCache\<close>

text \<open>
  A \<open>*zip.Reader\<close> is a reader over the bytes it was opened on; a nil pointer is \<open>None\<close>.
  \<open>zip.NewReader\<close> is library code and is a parameter of the model.
\<close>

datatype zip_Reader = Reader string

record ZipCache =
  data :: string
  reader :: "zip_Reader option"
  zip_etag :: string
  zip_timestamp :: int
  zip_ttl :: int
  persistPath :: string

definition NewZipCache :: "int \<Rightarrow> ZipCache" where
  "NewZipCache ttl =
     \<lparr>data = [], reader = None, zip_etag = [], zip_timestamp = 0, zip_ttl = ttl,
      persistPath = []\<rparr>"

definition ZipCache_Get :: "ZipCache \<Rightarrow> int \<Rightarrow> zip_Reader option \<times> string \<times> bool" where
  "ZipCache_Get c now =
     (if reader c = None then (None, '''', False)
      else if time_Since now (zip_timestamp c) > zip_ttl c then (None, zip_etag c, False)
      else (reader c, zip_etag c, True))"

definition ZipCache_GetAny :: "ZipCache \<Rightarrow> zip_Reader option \<times> string \<times> bool" where
  "ZipCache_GetAny c =
     (if reader c = None then (None, '''', False)
      else (reader c, zip_etag c, True))"

text \<open>
  \<open>ZipCache.Set\<close>. \<open>newReader\<close> is \<open>zip.NewReader\<close>, \<open>persist\<close> is the outcome of
  \<open>persistToFileLocked\<close> on the updated cache (file-system code), \<open>now\<close> is \<open>time.Now()\<close>.
  The fields are assigned before persistence is attempted, so a persistence error leaves
  the cache updated.
\<close>

definition ZipCache_Set ::
  "(string \<Rightarrow> error + zip_Reader) \<Rightarrow> (ZipCache \<Rightarrow> error option) \<Rightarrow> int \<Rightarrow>
   ZipCache \<Rightarrow> string \<Rightarrow> string \<Rightarrow> error option \<times> ZipCache" where
  "ZipCache_Set newReader persist now c bytes etag =
     (case newReader bytes of
        Inl err \<Rightarrow> (Some err, c)
      | Inr rd \<Rightarrow>
          (let c' = c\<lparr>data := bytes, reader := Some rd, zip_etag := etag, zip_timestamp := now\<rparr>
           in if persistPath c' = '''' then (None, c') else (persist c', c')))"

section \<open>Package fetcher\<close>

text \<open>
  The world a call of the fetcher runs in: what the HEAD request of \<open>Fetcher.GetETag\<close>
  and the GET request of \<open>downloadZip\<close> return, the library's \<open>zip.NewReader\<close>, the outcome
  of persisting, and the clock readings at the cache calls, in the order they are made.
\<close>

record world =
  headResult :: "error + string"
  getResult :: "error + string"
  zip_NewReader :: "string \<Rightarrow> error + zip_Reader"
  persistResult :: "ZipCache \<Rightarrow> error option"
  clockFirst :: int
  clockSet :: int
  clockLast :: int

datatype request = HEAD | GET

text \<open>
  What a call returns (a reader, a fingerprint and an error), together with the cache it
  leaves and the requests it sent upstream, in order.
\<close>

record outcome =
  out_reader :: "zip_Reader option"
  out_etag :: string
  out_err :: "error option"
  out_cache :: ZipCache
  out_requests :: "request list"

definition GetZipReader :: "world \<Rightarrow> ZipCache \<Rightarrow> outcome" where
  "GetZipReader w c =
     (case ZipCache_Get c (clockFirst w) of
        (rd, etag, ok) \<Rightarrow>
          if ok then
            \<lparr>out_reader = rd, out_etag = etag, out_err = None, out_cache = c, out_requests = []\<rparr>
          else
            (case headResult w of
               Inl err \<Rightarrow>
                 if rd \<noteq> None then
                   \<lparr>out_reader = rd, out_etag = etag, out_err = None, out_cache = c,
                    out_requests = [HEAD]\<rparr>
                 else
                   \<lparr>out_reader = None, out_etag = '''',
                    out_err = Some (Wrap ''failed to get ETag'' err), out_cache = c,
                    out_requests = [HEAD]\<rparr>
             | Inr newETag \<Rightarrow>
                 if etag = newETag \<and> rd \<noteq> None then
                   \<lparr>out_reader = rd, out_etag = etag, out_err = None, out_cache = c,
                    out_requests = [HEAD]\<rparr>
                 else
                   (case getResult w of
                      Inl err \<Rightarrow>
                        \<lparr>out_reader = None, out_etag = '''', out_err = Some err, out_cache = c,
                         out_requests = [HEAD, GET]\<rparr>
                    | Inr bytes \<Rightarrow>
                        (case ZipCache_Set (zip_NewReader w) (persistResult w) (clockSet w)
                                c bytes newETag of
                           (Some err, c') \<Rightarrow>
                             \<lparr>out_reader = None, out_etag = '''',
                              out_err = Some (Wrap ''failed to set cache'' err), out_cache = c',
                              out_requests = [HEAD, GET]\<rparr>
                         | (None, c') \<Rightarrow>
                             \<lparr>out_reader = fst (ZipCache_Get c' (clockLast w)),
                              out_etag = newETag, out_err = None, out_cache = c',
                              out_requests = [HEAD, GET]\<rparr>))))"

definition RefreshZipReader :: "world \<Rightarrow> ZipCache \<Rightarrow> outcome" where
  "RefreshZipReader w c =
     (case ZipCache_GetAny c of
        (rd, etag, ok) \<Rightarrow>
          (case headResult w of
             Inl err \<Rightarrow>
               if rd \<noteq> None then
                 \<lparr>out_reader = rd, out_etag = etag, out_err = None, out_cache = c,
                  out_requests = [HEAD]\<rparr>
               else
                 \<lparr>out_reader = None, out_etag = '''',
                  out_err = Some (Wrap ''failed to get ETag'' err), out_cache = c,
                  out_requests = [HEAD]\<rparr>
           | Inr newETag \<Rightarrow>
               if etag = newETag \<and> rd \<noteq> None then
                 \<lparr>out_reader = rd, out_etag = etag, out_err = None, out_cache = c,
                  out_requests = [HEAD]\<rparr>
               else
                 (case getResult w of
                    Inl err \<Rightarrow>
                      \<lparr>out_reader = None, out_etag = '''', out_err = Some err, out_cache = c,
                       out_requests = [HEAD, GET]\<rparr>
                  | Inr bytes \<Rightarrow>
                      (case ZipCache_Set (zip_NewReader w) (persistResult w) (clockSet w)
                              c bytes newETag of
                         (Some err, c') \<Rightarrow>
                           \<lparr>out_reader = None, out_etag = '''',
                            out_err = Some (Wrap ''failed to set cache'' err), out_cache = c',
                            out_requests = [HEAD, GET]\<rparr>
                       | (None, c') \<Rightarrow>
                           \<lparr>out_reader = fst (ZipCache_GetAny c'),
                            out_etag = newETag, out_err = None, out_cache = c',
                            out_requests = [HEAD, GET]\<rparr>))))"

section \<open>Package strings\<close>

text \<open>
  Go strings are byte sequences; so is \<open>string\<close> here. The functions below are the ones
  of the standard library that the converter calls, on bytes as the library works.
\<close>

definition HasPrefix :: "string \<Rightarrow> string \<Rightarrow> bool" where
  "HasPrefix s p = (take (length p) s = p)"

definition HasSuffix :: "string \<Rightarrow> string \<Rightarrow> bool" where
  "HasSuffix s p = (length p \<le> length s \<and> drop (length s - length p) s = p)"

definition TrimPrefix :: "string \<Rightarrow> string \<Rightarrow> string" where
  "TrimPrefix s p = (if HasPrefix s p then drop (length p) s else s)"

definition TrimSuffix :: "string \<Rightarrow> string \<Rightarrow> string" where
  "TrimSuffix s p = (if HasSuffix s p then take (length s - length p) s else s)"

text \<open>\<open>strings.Index\<close>: the byte offset of the first occurrence, \<open>-1\<close> when there is none.\<close>

fun indexFrom :: "int \<Rightarrow> string \<Rightarrow> string \<Rightarrow> int" where
  "indexFrom i [] sub = (if sub = [] then i else - 1)"
| "indexFrom i (c # s) sub = (if HasPrefix (c # s) sub then i else indexFrom (i + 1) s sub)"

definition Index :: "string \<Rightarrow> string \<Rightarrow> int" where
  "Index s sub = indexFrom 0 s sub"

text \<open>\<open>strings.Cut\<close>: the text before and after the first occurrence of the separator.\<close>

fun Cut :: "string \<Rightarrow> string \<Rightarrow> (string \<times> string) option" where
  "Cut [] sep = (if sep = [] then Some ([], []) else None)"
| "Cut (c # s) sep =
     (if HasPrefix (c # s) sep then Some ([], drop (length sep) (c # s))
      else map_option (\<lambda>(a, b). (c # a, b)) (Cut s sep))"

text \<open>
  \<open>strings.SplitN\<close> and \<open>strings.Split\<close> for a non-empty separator (the converter splits on
  a space and on a newline). \<open>splitAtMost k\<close> cuts at most \<open>k\<close> times; \<open>SplitN\<close> with a
  positive count \<open>n\<close> cuts at most \<open>n - 1\<close> times, the count capped at \<open>len(s) + 1\<close> as the
  library does; \<open>Split\<close> cuts at every occurrence.
\<close>

fun splitAtMost :: "nat \<Rightarrow> string \<Rightarrow> string \<Rightarrow> string list" where
  "splitAtMost 0 s sep = [s]"
| "splitAtMost (Suc k) s sep =
     (case Cut s sep of
        None \<Rightarrow> [s]
      | Some (a, b) \<Rightarrow> a # splitAtMost k b sep)"

definition SplitN :: "string \<Rightarrow> string \<Rightarrow> nat \<Rightarrow> string list" where
  "SplitN s sep n = (if n = 0 then [] else splitAtMost (min n (length s + 1) - 1) s sep)"

definition Split :: "string \<Rightarrow> string \<Rightarrow> string list" where
  "Split s sep = splitAtMost (length s) s sep"

fun Join :: "string list \<Rightarrow> string \<Rightarrow> string" where
  "Join [] sep = []"
| "Join [x] sep = x"
| "Join (x # y # ys) sep = x @ sep @ Join (y # ys) sep"

text \<open>
  \<open>strings.TrimSpace\<close> removes leading and trailing white space as \<open>unicode.IsSpace\<close>
  defines it, decoding UTF-8. A code point has one valid encoding, so a leading (trailing)
  white-space rune is a prefix (suffix) that is one of the encodings listed here: the six
  ASCII ones, U+0085, U+00A0, U+1680, U+2000 to U+200A, U+2028, U+2029, U+202F, U+205F and
  U+3000.
\<close>

definition spaceEncodings :: "string list" where
  "spaceEncodings =
     [[CHR 0x09], [CHR 0x0A], [CHR 0x0B], [CHR 0x0C], [CHR 0x0D], [CHR 0x20],
      [CHR 0xC2, CHR 0x85], [CHR 0xC2, CHR 0xA0],
      [CHR 0xE1, CHR 0x9A, CHR 0x80],
      [CHR 0xE2, CHR 0x80, CHR 0x80], [CHR 0xE2, CHR 0x80, CHR 0x81],
      [CHR 0xE2, CHR 0x80, CHR 0x82], [CHR 0xE2, CHR 0x80, CHR 0x83],
      [CHR 0xE2, CHR 0x80, CHR 0x84], [CHR 0xE2, CHR 0x80, CHR 0x85],
      [CHR 0xE2, CHR 0x80, CHR 0x86], [CHR 0xE2, CHR 0x80, CHR 0x87],
      [CHR 0xE2, CHR 0x80, CHR 0x88], [CHR 0xE2, CHR 0x80, CHR 0x89],
      [CHR 0xE2, CHR 0x80, CHR 0x8A],
      [CHR 0xE2, CHR 0x80, CHR 0xA8], [CHR 0xE2, CHR 0x80, CHR 0xA9],
      [CHR 0xE2, CHR 0x80, CHR 0xAF], [CHR 0xE2, CHR 0x81, CHR 0x9F],
      [CHR 0xE3, CHR 0x80, CHR 0x80]]"

text \<open>Removes one leading occurrence of one of the given byte sequences, if there is one.\<close>

fun stripOne :: "string list \<Rightarrow> string \<Rightarrow> string option" where
  "stripOne [] s = None"
| "stripOne (e # es) s = (if HasPrefix s e then Some (drop (length e) s) else stripOne es s)"

fun stripAll :: "nat \<Rightarrow> string list \<Rightarrow> string \<Rightarrow> string" where
  "stripAll 0 es s = s"
| "stripAll (Suc n) es s =
     (case stripOne es s of None \<Rightarrow> s | Some r \<Rightarrow> stripAll n es r)"

definition trimLeftSpace :: "string \<Rightarrow> string" where
  "trimLeftSpace s = stripAll (length s) spaceEncodings s"

definition trimRightSpace :: "string \<Rightarrow> string" where
  "trimRightSpace s = rev (stripAll (length s) (map rev spaceEncodings) (rev s))"

definition TrimSpace :: "string \<Rightarrow> string" where
  "TrimSpace s = trimRightSpace (trimLeftSpace s)"

section \<open>Package wildcard\<close>

text \<open>
  The syntax tree of \<open>regexp/syntax\<close>: a node has an operator, sub-expressions and, for a
  literal, its text (the runes, as the string \<open>string(re.Rune)\<close> gives). The parser itself
  is library code: the functions below take it as the parameter \<open>parse\<close>, which returns
  \<open>None\<close> where \<open>syntax.Parse(regex, syntax.Perl)\<close> returns an error.
\<close>

datatype Op =
    OpNoMatch | OpEmptyMatch | OpLiteral | OpCharClass | OpAnyCharNotNL | OpAnyChar
  | OpBeginLine | OpEndLine | OpBeginText | OpEndText | OpWordBoundary | OpNoWordBoundary
  | OpCapture | OpStar | OpPlus | OpQuest | OpRepeat | OpConcat | OpAlternate

datatype Regexp = Regexp (re_Op: Op) (re_Sub: "Regexp list") (re_Rune: string)

type_synonym regexParser = "string \<Rightarrow> Regexp option"

text \<open>
  \<open>convertNode\<close> has one branch for each of the nineteen operators of the library; its
  default branch, which returns \<open>?\<close>, is taken by none of them.
\<close>

fun convertNode :: "Regexp \<Rightarrow> string" where
  "convertNode (Regexp opr subs rune) =
     (case opr of
        OpNoMatch \<Rightarrow> ''''
      | OpEmptyMatch \<Rightarrow> ''''
      | OpLiteral \<Rightarrow> rune
      | OpCharClass \<Rightarrow> ''?''
      | OpAnyCharNotNL \<Rightarrow> ''?''
      | OpAnyChar \<Rightarrow> ''?''
      | OpBeginLine \<Rightarrow> ''''
      | OpEndLine \<Rightarrow> ''''
      | OpBeginText \<Rightarrow> ''''
      | OpEndText \<Rightarrow> ''''
      | OpWordBoundary \<Rightarrow> ''''
      | OpNoWordBoundary \<Rightarrow> ''''
      | OpCapture \<Rightarrow> concat (map convertNode subs)
      | OpStar \<Rightarrow> ''*''
      | OpPlus \<Rightarrow> ''*''
      | OpQuest \<Rightarrow> ''*''
      | OpRepeat \<Rightarrow> ''*''
      | OpConcat \<Rightarrow> concat (map convertNode subs)
      | OpAlternate \<Rightarrow> ''*'')"

definition RegexToWildcard :: "regexParser \<Rightarrow> string \<Rightarrow> string" where
  "RegexToWildcard parse regex =
     (case parse (TrimSuffix (TrimPrefix regex ''/'') ''/'') of
        None \<Rightarrow> ''''
      | Some re \<Rightarrow> convertNode re)"

fun containsDangerousNode :: "Regexp \<Rightarrow> bool" where
  "containsDangerousNode (Regexp opr subs rune) =
     (case opr of
        OpCharClass \<Rightarrow> True
      | OpAlternate \<Rightarrow> True
      | OpRepeat \<Rightarrow> True
      | OpStar \<Rightarrow> list_ex containsDangerousNode subs
      | OpPlus \<Rightarrow> list_ex containsDangerousNode subs
      | OpCapture \<Rightarrow> list_ex containsDangerousNode subs
      | OpConcat \<Rightarrow> list_ex containsDangerousNode subs
      | _ \<Rightarrow> False)"

text \<open>
  \<open>isBroadPattern\<close>. The loop ranges over runes and compares each with an ASCII character;
  a byte of a multi-byte rune equals none of them, so the loop over bytes computes the same
  flag and count. The state of the loop is \<open>(wildcardOnly, questionCount)\<close>.
\<close>

definition broadStep :: "bool \<times> nat \<Rightarrow> char \<Rightarrow> bool \<times> nat" where
  "broadStep st c =
     (case st of (wildcardOnly, questionCount) \<Rightarrow>
        if c = CHR ''*'' then (wildcardOnly, questionCount)
        else if c = CHR ''?'' then (wildcardOnly, questionCount + 1)
        else if c = CHR ''.'' then (False, questionCount)
        else (False, questionCount))"

definition isBroadPattern :: "string \<Rightarrow> bool" where
  "isBroadPattern pattern =
     (case foldl broadStep (True, 0) pattern of (wildcardOnly, questionCount) \<Rightarrow>
        if wildcardOnly \<and> length pattern > 0 then True
        else if questionCount \<ge> 3 then True
        else False)"

definition IsDangerousRegex :: "regexParser \<Rightarrow> string \<Rightarrow> bool" where
  "IsDangerousRegex parse regex =
     (case parse (TrimSuffix (TrimPrefix regex ''/'') ''/'') of
        None \<Rightarrow> True
      | Some re \<Rightarrow>
          if containsDangerousNode re then True
          else isBroadPattern (convertNode re))"

section \<open>Package converter: types\<close>

datatype ItemKind = ItemRule | ItemComment

datatype RuleKind = RuleDomainSuffix | RuleDomain | RuleDomainKeyword | RuleDomainRegex

record Rule =
  rule_Kind :: RuleKind
  rule_Value :: string
  rule_Comment :: string

text \<open>The field \<open>Rule\<close> of an item is a pointer: \<open>None\<close> is nil.\<close>

record Item =
  item_Kind :: ItemKind
  item_Rule :: "Rule option"
  item_Comment :: string

text \<open>The two item literals the parser builds; the fields it leaves out are zero.\<close>

definition commentItem :: "string \<Rightarrow> Item" where
  "commentItem line = \<lparr>item_Kind = ItemComment, item_Rule = None, item_Comment = line\<rparr>"

definition ruleItem :: "Rule \<Rightarrow> Item" where
  "ruleItem r = \<lparr>item_Kind = ItemRule, item_Rule = Some r, item_Comment = ''''\<rparr>"

section \<open>Package converter: Parse\<close>

definition matchesFilter :: "string \<Rightarrow> string \<Rightarrow> bool" where
  "matchesFilter rest filterTag =
     (if filterTag = '''' then True
      else
        (let trimmedRest = TrimSpace rest;
             filterString = ''@'' @ filterTag
         in if \<not> HasPrefix trimmedRest ''@'' then False
            else
              (let commentIndex = Index trimmedRest ''#'';
                   filterIndex = Index trimmedRest filterString
               in if filterIndex = - 1 \<or> (commentIndex \<noteq> - 1 \<and> commentIndex < filterIndex)
                  then False
                  else True)))"

text \<open>
  \<open>parseRuleLine\<close> returns the rule and the flag \<open>ok\<close>; the rule is the zero rule when the
  line does not pass the filter. \<open>SplitN\<close> with a count of two gives one or two parts, so
  \<open>parts[0]\<close> always exists.
\<close>

definition zeroRule :: Rule where
  "zeroRule = \<lparr>rule_Kind = RuleDomainSuffix, rule_Value = '''', rule_Comment = ''''\<rparr>"

definition parseRuleLine :: "string \<Rightarrow> string \<Rightarrow> RuleKind \<Rightarrow> string \<Rightarrow> Rule \<times> bool" where
  "parseRuleLine line fromPrefix kind filterTag =
     (let parts = SplitN line '' '' 2;
          val = (if fromPrefix \<noteq> '''' then TrimPrefix (hd parts) fromPrefix else hd parts);
          rest = (if length parts > 1 then parts ! 1 else '''')
      in if \<not> matchesFilter rest filterTag then (zeroRule, False)
         else (\<lparr>rule_Kind = kind, rule_Value = val, rule_Comment = rest\<rparr>, True))"

fun hasRules :: "Item list \<Rightarrow> bool" where
  "hasRules [] = False"
| "hasRules (item # items) = (if item_Kind item = ItemRule then True else hasRules items)"

text \<open>
  The content accessor \<open>fileGetter\<close>, applied to the converter's archive: from a member name
  to its text or an error.
\<close>

type_synonym fileGetter = "string \<Rightarrow> error + string"

text \<open>
  A parse returns \<open>Some (Inr items)\<close>, or \<open>Some (Inl err)\<close> for the error it returns, or
  \<open>None\<close> when it does not return. \<open>parseInclude\<close> calls \<open>Parse\<close> on the member's text with
  a new converter over the same archive and accessor; that call is the parameter \<open>sub\<close>.
\<close>

type_synonym parseResult = "(error + Item list) option"

definition parseInclude ::
  "(string \<Rightarrow> string \<Rightarrow> parseResult) \<Rightarrow> fileGetter \<Rightarrow> string \<Rightarrow> string \<Rightarrow> parseResult" where
  "parseInclude sub getter line filterTag =
     (let parts = SplitN line '' '' 2;
          subContentName = TrimPrefix (hd parts) ''include:''
      in case getter subContentName of
           Inl err \<Rightarrow> Some (Inl (Wrap ''failed to fetch sub-upstream content'' err))
         | Inr subContent \<Rightarrow>
             (case sub subContent filterTag of
                None \<Rightarrow> None
              | Some (Inl err) \<Rightarrow> Some (Inl err)
              | Some (Inr subItems) \<Rightarrow>
                  if \<not> hasRules subItems then Some (Inr [])
                  else Some (Inr (commentItem (''# '' @ line) # subItems))))"

text \<open>
  The loop of \<open>Parse\<close> over the lines, with the items appended so far. A rule line that
  does not pass the filter appends nothing.
\<close>

definition appendRule :: "Item list \<Rightarrow> Rule \<times> bool \<Rightarrow> Item list" where
  "appendRule items r = (case r of (rule, ok) \<Rightarrow> if ok then items @ [ruleItem rule] else items)"

fun parseLines ::
  "(string \<Rightarrow> string \<Rightarrow> parseResult) \<Rightarrow> fileGetter \<Rightarrow> string \<Rightarrow> string list \<Rightarrow> Item list
   \<Rightarrow> parseResult" where
  "parseLines sub getter filterTag [] items = Some (Inr items)"
| "parseLines sub getter filterTag (raw # rest) items =
     (let line = TrimSpace raw
      in if line = '''' then parseLines sub getter filterTag rest items
         else if HasPrefix line ''#'' then
           parseLines sub getter filterTag rest (items @ [commentItem line])
         else if HasPrefix line ''domain:'' then
           parseLines sub getter filterTag rest
             (appendRule items (parseRuleLine line ''domain:'' RuleDomainSuffix filterTag))
         else if HasPrefix line ''full:'' then
           parseLines sub getter filterTag rest
             (appendRule items (parseRuleLine line ''full:'' RuleDomain filterTag))
         else if HasPrefix line ''keyword:'' then
           parseLines sub getter filterTag rest
             (appendRule items (parseRuleLine line ''keyword:'' RuleDomainKeyword filterTag))
         else if HasPrefix line ''regexp:'' then
           parseLines sub getter filterTag rest
             (appendRule items (parseRuleLine line ''regexp:'' RuleDomainRegex filterTag))
         else if HasPrefix line ''include:'' then
           (case parseInclude sub getter line filterTag of
              None \<Rightarrow> None
            | Some (Inl err) \<Rightarrow> Some (Inl err)
            | Some (Inr subItems) \<Rightarrow> parseLines sub getter filterTag rest (items @ subItems))
         else
           parseLines sub getter filterTag rest
             (appendRule items (parseRuleLine line '''' RuleDomainSuffix filterTag)))"

text \<open>
  \<open>Converter.Parse\<close>. The source has no guard on the nesting of includes, so a chain of
  includes that returns to a member never returns. The first argument bounds the depth of
  nested includes a call may follow: \<open>None\<close> says the text nests deeper than the bound.
\<close>

definition newline :: string where
  "newline = [CHR 0x0A]"

primrec Parse :: "nat \<Rightarrow> fileGetter \<Rightarrow> string \<Rightarrow> string \<Rightarrow> parseResult" where
  "Parse 0 getter upstreamContent filterTag =
     parseLines (\<lambda>c f. None) getter filterTag (Split upstreamContent newline) []"
| "Parse (Suc n) getter upstreamContent filterTag =
     parseLines (Parse n getter) getter filterTag (Split upstreamContent newline) []"

section \<open>Package converter: rendering\<close>

definition appendComment :: "string \<Rightarrow> string \<Rightarrow> string" where
  "appendComment line comment =
     (if comment = '''' then line
      else if HasPrefix comment ''#'' then line @ '' '' @ comment
      else line @ '' # '' @ comment)"

text \<open>
  \<open>skipPattern\<close> is the compiled expression \<open>^[\?\*]+$\<close>: it matches the non-empty strings
  of question marks and asterisks.
\<close>

definition skipPattern_MatchString :: "string \<Rightarrow> bool" where
  "skipPattern_MatchString s = (s \<noteq> [] \<and> list_all (\<lambda>c. c = CHR ''?'' \<or> c = CHR ''*'') s)"

text \<open>
  \<open>renderSurgeRule\<close> and \<open>renderMihomoRule\<close> switch on the kind of the rule. The kind is one
  of the four constants of \<open>RuleKind\<close>; the default branch of the two switches, for another
  integer, has no counterpart here.
\<close>

definition renderSurgeRule :: "regexParser \<Rightarrow> Rule \<Rightarrow> string" where
  "renderSurgeRule parse rule =
     (case rule_Kind rule of
        RuleDomainSuffix \<Rightarrow> appendComment (''DOMAIN-SUFFIX,'' @ rule_Value rule) (rule_Comment rule)
      | RuleDomain \<Rightarrow> appendComment (''DOMAIN,'' @ rule_Value rule) (rule_Comment rule)
      | RuleDomainKeyword \<Rightarrow>
          appendComment (''DOMAIN-KEYWORD,'' @ rule_Value rule) (rule_Comment rule)
      | RuleDomainRegex \<Rightarrow>
          if IsDangerousRegex parse (rule_Value rule) then
            appendComment (''# DANGEROUS-REGEX,'' @ rule_Value rule) (rule_Comment rule)
          else
            (let wildcardPattern = RegexToWildcard parse (rule_Value rule);
                 pre = (if skipPattern_MatchString wildcardPattern
                        then ''# SKIPPED-DOMAIN-WILDCARD,'' else ''DOMAIN-WILDCARD,'')
             in appendComment (pre @ wildcardPattern) (rule_Comment rule)))"

definition renderMihomoRule :: "Rule \<Rightarrow> string" where
  "renderMihomoRule rule =
     (case rule_Kind rule of
        RuleDomainSuffix \<Rightarrow> appendComment (''DOMAIN-SUFFIX,'' @ rule_Value rule) (rule_Comment rule)
      | RuleDomain \<Rightarrow> appendComment (''DOMAIN,'' @ rule_Value rule) (rule_Comment rule)
      | RuleDomainKeyword \<Rightarrow>
          appendComment (''DOMAIN-KEYWORD,'' @ rule_Value rule) (rule_Comment rule)
      | RuleDomainRegex \<Rightarrow>
          appendComment (''DOMAIN-REGEX,'' @ rule_Value rule) (rule_Comment rule))"

text \<open>
  The loop shared by \<open>RenderSurge\<close> and \<open>RenderMihomo\<close>, which differ in the function that
  renders a rule. Its state is \<open>(result, pendingIncludeComments, pendingComment)\<close>;
  \<open>renderStep\<close> is one pass of the loop body, \<open>renderLoop\<close> gives the state when the
  loop ends, and the renderers join its \<open>result\<close>.
\<close>

type_synonym renderState = "string list \<times> string list \<times> string"

definition renderStep :: "(Rule \<Rightarrow> string) \<Rightarrow> renderState \<Rightarrow> Item \<Rightarrow> renderState" where
  "renderStep render st item =
     (case st of (result, pendingIncludeComments, pendingComment) \<Rightarrow>
        if item_Kind item = ItemComment then
          (if HasPrefix (TrimSpace (item_Comment item)) ''# include:'' then
             (result, pendingIncludeComments @ [item_Comment item], pendingComment)
           else (result, pendingIncludeComments, item_Comment item))
        else if item_Kind item \<noteq> ItemRule \<or> item_Rule item = None then st
        else
          (let line = render (the (item_Rule item))
           in if HasPrefix (TrimSpace line) ''#'' then
                (result, pendingIncludeComments, line)
              else
                (result @ pendingIncludeComments
                   @ (if pendingComment \<noteq> '''' then [pendingComment] else [])
                   @ [line],
                 [], '''')))"

definition renderLoop :: "(Rule \<Rightarrow> string) \<Rightarrow> Item list \<Rightarrow> renderState \<Rightarrow> renderState" where
  "renderLoop render items st = foldl (renderStep render) st items"

definition surgeLines :: "regexParser \<Rightarrow> Item list \<Rightarrow> string list" where
  "surgeLines parse items = fst (renderLoop (renderSurgeRule parse) items ([], [], ''''))"

definition mihomoLines :: "Item list \<Rightarrow> string list" where
  "mihomoLines items = fst (renderLoop renderMihomoRule items ([], [], ''''))"

definition RenderSurge :: "regexParser \<Rightarrow> Item list \<Rightarrow> string" where
  "RenderSurge parse items = Join (surgeLines parse items) newline"

definition RenderMihomo :: "Item list \<Rightarrow> string" where
  "RenderMihomo items = Join (mihomoLines items) newline"





section \<open>The rule line in the words of the specification\<close>

text \<open>
  The first token of a line is its text up to the first space; the trailing tag and comment
  region is the text after that space.
\<close>

definition firstToken :: "string \<Rightarrow> string" where
  "firstToken line = takeWhile (\<lambda>c. c \<noteq> CHR '' '') line"

definition trailingRegion :: "string \<Rightarrow> string" where
  "trailingRegion line = drop (Suc (length (firstToken line))) line"

text \<open>
  The classification of a trimmed line that is not an include directive: nothing for a
  blank line, a comment item for a line starting with \<open>#\<close>, and otherwise, when the line
  passes the filter, one rule whose kind is given by the type prefix (the domain-suffix
  kind when there is none), whose value is the first token without the prefix and whose
  comment is the trailing region.
\<close>

definition spec_classify :: "string \<Rightarrow> string \<Rightarrow> Item list" where
  "spec_classify filterTag line =
     (if line = '''' then []
      else if HasPrefix line ''#'' then [commentItem line]
      else if \<not> matchesFilter (trailingRegion line) filterTag then []
      else if HasPrefix line ''domain:'' then
        [ruleItem \<lparr>rule_Kind = RuleDomainSuffix,
                   rule_Value = drop (length ''domain:'') (firstToken line),
                   rule_Comment = trailingRegion line\<rparr>]
      else if HasPrefix line ''full:'' then
        [ruleItem \<lparr>rule_Kind = RuleDomain,
                   rule_Value = drop (length ''full:'') (firstToken line),
                   rule_Comment = trailingRegion line\<rparr>]
      else if HasPrefix line ''keyword:'' then
        [ruleItem \<lparr>rule_Kind = RuleDomainKeyword,
                   rule_Value = drop (length ''keyword:'') (firstToken line),
                   rule_Comment = trailingRegion line\<rparr>]
      else if HasPrefix line ''regexp:'' then
        [ruleItem \<lparr>rule_Kind = RuleDomainRegex,
                   rule_Value = drop (length ''regexp:'') (firstToken line),
                   rule_Comment = trailingRegion line\<rparr>]
      else
        [ruleItem \<lparr>rule_Kind = RuleDomainSuffix,
                   rule_Value = firstToken line,
                   rule_Comment = trailingRegion line\<rparr>])"

text \<open>The items one line of the text contributes: the loop of \<open>Parse\<close> on that line alone.\<close>

definition parseLine ::
  "(string \<Rightarrow> string \<Rightarrow> parseResult) \<Rightarrow> fileGetter \<Rightarrow> string \<Rightarrow> string \<Rightarrow> parseResult" where
  "parseLine sub getter filterTag raw = parseLines sub getter filterTag [raw] []"

text \<open>The call of \<open>Parse\<close> that \<open>parseInclude\<close> makes inside \<open>Parse n\<close>.\<close>

definition subParse :: "nat \<Rightarrow> fileGetter \<Rightarrow> string \<Rightarrow> string \<Rightarrow> parseResult" where
  "subParse n getter = (case n of 0 \<Rightarrow> (\<lambda>c f. None) | Suc m \<Rightarrow> Parse m getter)"







section \<open>Inputs of the examples\<close>

text \<open>
  A cache that holds an archive fetched at instant 0 under the fingerprint \<open>v1\<close> with a
  TTL of 10, and two worlds in which the next request arrives at instant 11: one where the
  HEAD request fails, one where it answers with the same fingerprint.
\<close>

definition staleCache :: ZipCache where
  "staleCache =
     \<lparr>data = ''PK-old'', reader = Some (Reader ''PK-old''), zip_etag = ''v1'',
      zip_timestamp = 0, zip_ttl = 10, persistPath = ''''\<rparr>"

definition probeFails :: world where
  "probeFails =
     \<lparr>headResult = Inl (Err ''dial tcp: i/o timeout''), getResult = Inl (Err ''unreachable''),
      zip_NewReader = (\<lambda>bytes. Inr (Reader bytes)), persistResult = (\<lambda>c. None),
      clockFirst = 11, clockSet = 12, clockLast = 13\<rparr>"

definition probeSameETag :: world where
  "probeSameETag =
     \<lparr>headResult = Inr ''v1'', getResult = Inr ''PK-new'',
      zip_NewReader = (\<lambda>bytes. Inr (Reader bytes)), persistResult = (\<lambda>c. None),
      clockFirst = 11, clockSet = 12, clockLast = 13\<rparr>"

text \<open>
  The trees \<open>syntax.Parse\<close> returns, under the Perl flags, for the three expressions the
  examples use: \<open>[a-z]+\.example\.com\<close> is a concatenation of a repeated class and a
  literal, \<open>a[0-9]?\<close> a literal followed by an optional class, \<open>.\..\<close> a literal dot
  between two any-character nodes. \<open>sampleParse\<close> is the parser on these expressions; the
  examples apply it to no other.
\<close>

definition classPlusExpr :: string where
  "classPlusExpr = ''[a-z]+'' @ [CHR 0x5C] @ ''.example'' @ [CHR 0x5C] @ ''.com''"

definition classPlusTree :: Regexp where
  "classPlusTree =
     Regexp OpConcat
       [Regexp OpPlus [Regexp OpCharClass [] ''''] '''', Regexp OpLiteral [] ''.example.com'']
       ''''"

definition questClassExpr :: string where
  "questClassExpr = ''a[0-9]?''"

definition questClassTree :: Regexp where
  "questClassTree =
     Regexp OpConcat
       [Regexp OpLiteral [] ''a'', Regexp OpQuest [Regexp OpCharClass [] ''''] '''']
       ''''"

definition dotBetweenExpr :: string where
  "dotBetweenExpr = ''.'' @ [CHR 0x5C] @ ''..''"

definition dotBetweenTree :: Regexp where
  "dotBetweenTree =
     Regexp OpConcat
       [Regexp OpAnyCharNotNL [] '''', Regexp OpLiteral [] ''.'', Regexp OpAnyCharNotNL [] '''']
       ''''"

definition sampleParse :: regexParser where
  "sampleParse s =
     (if s = classPlusExpr then Some classPlusTree
      else if s = questClassExpr then Some questClassTree
      else if s = dotBetweenExpr then Some dotBetweenTree
      else None)"

text \<open>An accessor over an archive with no members.\<close>

definition noMembers :: fileGetter where
  "noMembers name = Inl (Err (''file not found: domain-list-community-master/data/'' @ name))"

text \<open>A list with a comment, the three other type prefixes, a blank line and a bare domain.\<close>

definition sampleList :: string where
  "sampleList =
     ''# sample'' @ newline @ ''full:a.example @cn'' @ newline @ newline
       @ ''  keyword:shop # k'' @ newline @ ''regexp:x.y'' @ newline @ ''b.example''"




section \<open>Properties of the result cache\<close>

text \<open>
  C1. A result stored with \<open>Set(key, value, f1)\<close> is not returned by \<open>Get(key, f2)\<close> when
  \<open>f1\<close> and \<open>f2\<close> differ, whatever the instants of the two calls; and \<open>Get\<close> reports a hit
  exactly when the key has an entry whose fingerprint equals the queried one and whose age
  does not exceed the TTL, the hit carrying that entry's value.
\<close>

theorem C1_result_cache_fingerprint_guard:
  "(f1 \<noteq> f2 \<longrightarrow>
      ResultCache_Get (ResultCache_Set c key val f1 t0) key f2 t1 = ('''', False))
   \<and> (snd (ResultCache_Get c key f now) \<longleftrightarrow>
        (\<exists>e. results c key = Some e \<and> entry_etag e = f
             \<and> \<not> time_Since now (entry_timestamp e) > result_ttl c))
   \<and> (ResultCache_Get c key f now = (v, True) \<longrightarrow>
        (\<exists>e. results c key = Some e \<and> entry_etag e = f \<and> entry_value e = v
             \<and> \<not> time_Since now (entry_timestamp e) > result_ttl c))"
  by (auto simp: ResultCache_Get_def ResultCache_Set_def split: option.splits)

theorem C1_result_cache_fingerprint_guard_witness:
  "ResultCache_Get (ResultCache_Set (NewResultCache 100) ''k@cn/surge'' ''out'' ''v1'' 5)
     ''k@cn/surge'' ''v2'' 6 = ('''', False)
   \<and> ResultCache_Get (ResultCache_Set (NewResultCache 100) ''k@cn/surge'' ''out'' ''v1'' 5)
     ''k@cn/surge'' ''v1'' 6 = (''out'', True)
   \<and> (\<exists>e. results (ResultCache_Set (NewResultCache 100) ''k@cn/surge'' ''out'' ''v1'' 5)
              ''k@cn/surge'' = Some e
          \<and> entry_etag e = ''v1'' \<and> entry_value e = ''out''
          \<and> \<not> time_Since 6 (entry_timestamp e) > 100)"
proof -
  define c where "c = ResultCache_Set (NewResultCache 100) ''k@cn/surge'' ''out'' ''v1'' 5"
  have ne: "''v1'' \<noteq> ''v2''" by simp
  have miss: "ResultCache_Get c ''k@cn/surge'' ''v2'' 6 = ('''', False)"
    unfolding c_def
    using C1_result_cache_fingerprint_guard
      [of "''v1''" "''v2''" "NewResultCache 100" "''k@cn/surge''" "''out''" 5 6] ne
    by blast
  have hit: "ResultCache_Get c ''k@cn/surge'' ''v1'' 6 = (''out'', True)"
    by (simp add: c_def ResultCache_Get_def ResultCache_Set_def NewResultCache_def time_Since_def
        time_Sub_def maxDuration_def minDuration_def)
  have ttl: "result_ttl c = 100"
    by (simp add: c_def ResultCache_Set_def NewResultCache_def)
  from C1_result_cache_fingerprint_guard
    [where c = c and key = "''k@cn/surge''" and f = "''v1''" and now = 6 and v = "''out''"] hit
  have "\<exists>e. results c ''k@cn/surge'' = Some e \<and> entry_etag e = ''v1'' \<and> entry_value e = ''out''
      \<and> \<not> time_Since 6 (entry_timestamp e) > result_ttl c"
    by blast
  with miss hit show ?thesis by (simp add: ttl c_def [symmetric])
qed

section \<open>Properties of the fetcher\<close>

lemma time_Since_11: "time_Since 11 0 = 11"
  by (simp add: time_Since_def time_Sub_def maxDuration_def minDuration_def)

text \<open>
  After a miss of \<open>ZipCache.Get\<close> the reader it returned is nil, also when the cache holds
  an archive whose TTL has elapsed. The two branches of \<open>GetZipReader\<close> that test
  \<open>reader != nil\<close> are therefore never taken: a failed probe is propagated, and an unchanged
  fingerprint is followed by a download. \<open>RefreshZipReader\<close> reads the cache with \<open>GetAny\<close>
  and takes both branches.
\<close>

lemma GetZipReader_stale_probe_error:
  assumes "reader c \<noteq> None"
    and "time_Since (clockFirst w) (zip_timestamp c) > zip_ttl c"
    and "headResult w = Inl err"
  shows "GetZipReader w c =
           \<lparr>out_reader = None, out_etag = '''', out_err = Some (Wrap ''failed to get ETag'' err),
            out_cache = c, out_requests = [HEAD]\<rparr>"
  using assms by (simp add: GetZipReader_def ZipCache_Get_def)

lemma RefreshZipReader_probe_error:
  assumes "reader c \<noteq> None" and "headResult w = Inl err"
  shows "RefreshZipReader w c =
           \<lparr>out_reader = reader c, out_etag = zip_etag c, out_err = None,
            out_cache = c, out_requests = [HEAD]\<rparr>"
  using assms by (simp add: RefreshZipReader_def ZipCache_GetAny_def)

lemma GetZipReader_stale_same_etag_downloads:
  assumes "reader c \<noteq> None"
    and "time_Since (clockFirst w) (zip_timestamp c) > zip_ttl c"
    and "headResult w = Inr (zip_etag c)"
  shows "out_requests (GetZipReader w c) = [HEAD, GET]"
  using assms
  by (simp add: GetZipReader_def ZipCache_Get_def split: sum.splits prod.splits option.splits)

lemma RefreshZipReader_same_etag:
  assumes "reader c \<noteq> None" and "headResult w = Inr (zip_etag c)"
  shows "RefreshZipReader w c =
           \<lparr>out_reader = reader c, out_etag = zip_etag c, out_err = None,
            out_cache = c, out_requests = [HEAD]\<rparr>"
  using assms by (cases "reader c") (simp_all add: RefreshZipReader_def ZipCache_GetAny_def)

text \<open>
  C2. The cache holds an archive whose TTL has elapsed and the probe fails with a transport
  error. \<open>GetZipReader\<close> returns no reader and the wrapped probe error;
  \<open>RefreshZipReader\<close>, in the same cache and world, returns the stale archive and its
  fingerprint with no error.
\<close>

theorem C2_stale_archive_probe_failure:
  "GetZipReader probeFails staleCache =
     \<lparr>out_reader = None, out_etag = '''',
      out_err = Some (Wrap ''failed to get ETag'' (Err ''dial tcp: i/o timeout'')),
      out_cache = staleCache, out_requests = [HEAD]\<rparr>
   \<and> RefreshZipReader probeFails staleCache =
     \<lparr>out_reader = Some (Reader ''PK-old''), out_etag = ''v1'', out_err = None,
      out_cache = staleCache, out_requests = [HEAD]\<rparr>"
  by (simp add: GetZipReader_def RefreshZipReader_def ZipCache_Get_def ZipCache_GetAny_def
      staleCache_def probeFails_def time_Since_11)

text \<open>
  C7. The cache holds an archive whose TTL has elapsed and the probe answers with the cached
  fingerprint. \<open>GetZipReader\<close> sends the GET request, replaces the cached archive by the
  download and returns a reader over the downloaded bytes; \<open>RefreshZipReader\<close>, in the same
  cache and world, sends the HEAD request only, returns the cached reader and leaves the
  cache, its timestamp included, as it was.
\<close>

theorem C7_same_fingerprint_probe:
  "out_requests (GetZipReader probeSameETag staleCache) = [HEAD, GET]
   \<and> out_reader (GetZipReader probeSameETag staleCache) = Some (Reader ''PK-new'')
   \<and> data (out_cache (GetZipReader probeSameETag staleCache)) = ''PK-new''
   \<and> out_requests (RefreshZipReader probeSameETag staleCache) = [HEAD]
   \<and> out_reader (RefreshZipReader probeSameETag staleCache) = Some (Reader ''PK-old'')
   \<and> out_cache (RefreshZipReader probeSameETag staleCache) = staleCache"
  by (simp add: GetZipReader_def RefreshZipReader_def ZipCache_Get_def ZipCache_GetAny_def
      ZipCache_Set_def staleCache_def probeSameETag_def time_Since_def time_Sub_def
      maxDuration_def minDuration_def)

section \<open>Properties of the wildcard translator\<close>




lemma trim_questClassExpr: "TrimSuffix (TrimPrefix questClassExpr ''/'') ''/'' = questClassExpr"
  by (simp add: questClassExpr_def TrimPrefix_def TrimSuffix_def HasPrefix_def HasSuffix_def)


lemma trim_dotBetweenExpr: "TrimSuffix (TrimPrefix dotBetweenExpr ''/'') ''/'' = dotBetweenExpr"
  by (simp add: dotBetweenExpr_def TrimPrefix_def TrimSuffix_def HasPrefix_def HasSuffix_def)


lemma sampleParse_questClass: "sampleParse questClassExpr = Some questClassTree"
  by (simp add: sampleParse_def questClassExpr_def classPlusExpr_def)

lemma sampleParse_dotBetween: "sampleParse dotBetweenExpr = Some dotBetweenTree"
  by (simp add: sampleParse_def questClassExpr_def classPlusExpr_def dotBetweenExpr_def)


lemma IsDangerous_questClass: "\<not> IsDangerousRegex sampleParse questClassExpr"
  by (simp add: IsDangerousRegex_def trim_questClassExpr sampleParse_questClass questClassTree_def
      isBroadPattern_def broadStep_def)

lemma IsDangerous_dotBetween: "\<not> IsDangerousRegex sampleParse dotBetweenExpr"
  by (simp add: IsDangerousRegex_def trim_dotBetweenExpr sampleParse_dotBetween dotBetweenTree_def
      isBroadPattern_def broadStep_def)

text \<open>
  C3. \<open>IsDangerousRegex\<close> on \<open>a[0-9]?\<close>, whose syntax tree holds a character class under
  an optional quantifier: \<open>containsDangerousNode\<close> descends through \<open>OpStar\<close>, \<open>OpPlus\<close>,
  \<open>OpCapture\<close> and \<open>OpConcat\<close> and has no case for \<open>OpQuest\<close>, the translation \<open>a*\<close> is
  not broad, and the expression is judged not dangerous. On \<open>.\..\<close> the translation \<open>?.?\<close>
  consists of wildcard characters and a dot; \<open>isBroadPattern\<close> counts the dot as literal
  text and the expression is judged not dangerous.
\<close>

theorem C3_optional_class_not_dangerous:
  "sampleParse questClassExpr = Some questClassTree
   \<and> \<not> IsDangerousRegex sampleParse questClassExpr
   \<and> RegexToWildcard sampleParse questClassExpr = ''a*''
   \<and> sampleParse dotBetweenExpr = Some dotBetweenTree
   \<and> \<not> IsDangerousRegex sampleParse dotBetweenExpr
   \<and> RegexToWildcard sampleParse dotBetweenExpr = ''?.?''"
  by (simp add: IsDangerous_questClass IsDangerous_dotBetween RegexToWildcard_def
      trim_questClassExpr trim_dotBetweenExpr sampleParse_questClass sampleParse_dotBetween
      questClassTree_def dotBetweenTree_def)

section \<open>Facts about the string functions\<close>

lemma HasPrefix_Nil [simp]: "HasPrefix s []"
  by (simp add: HasPrefix_def)

lemma HasPrefix_append: "HasPrefix (p @ s) p"
  by (simp add: HasPrefix_def)

lemma HasPrefix_iff: "HasPrefix s p \<longleftrightarrow> (\<exists>r. s = p @ r)"
  unfolding HasPrefix_def
  by (metis append_eq_conv_conj)

lemma indexFrom_cases:
  "0 \<le> i \<Longrightarrow>
   (indexFrom i s sub = - 1 \<and> (\<forall>j \<le> length s. \<not> HasPrefix (drop j s) sub))
   \<or> (\<exists>k \<le> length s. indexFrom i s sub = i + int k \<and> HasPrefix (drop k s) sub
         \<and> (\<forall>j < k. \<not> HasPrefix (drop j s) sub))"
proof (induction s arbitrary: i)
  case Nil
  then show ?case by (auto simp: HasPrefix_def)
next
  case (Cons c s)
  show ?case
  proof (cases "HasPrefix (c # s) sub")
    case True
    then have "indexFrom i (c # s) sub = i + int 0 \<and> HasPrefix (drop 0 (c # s)) sub"
      by simp
    then show ?thesis by blast
  next
    case False
    from Cons.prems have i1: "0 \<le> i + 1" by simp
    from Cons.IH [OF i1] show ?thesis
    proof
      assume a: "indexFrom (i + 1) s sub = - 1 \<and> (\<forall>j\<le>length s. \<not> HasPrefix (drop j s) sub)"
      have "\<forall>j \<le> length (c # s). \<not> HasPrefix (drop j (c # s)) sub"
      proof (intro allI impI)
        fix j assume "j \<le> length (c # s)"
        then show "\<not> HasPrefix (drop j (c # s)) sub"
          using a False by (cases j) auto
      qed
      with a False show ?thesis by simp
    next
      assume "\<exists>k\<le>length s. indexFrom (i + 1) s sub = i + 1 + int k \<and> HasPrefix (drop k s) sub
         \<and> (\<forall>j<k. \<not> HasPrefix (drop j s) sub)"
      then obtain k where k: "k \<le> length s" "indexFrom (i + 1) s sub = i + 1 + int k"
        "HasPrefix (drop k s) sub" "\<forall>j<k. \<not> HasPrefix (drop j s) sub" by blast
      have "\<forall>j < Suc k. \<not> HasPrefix (drop j (c # s)) sub"
      proof (intro allI impI)
        fix j assume "j < Suc k"
        then show "\<not> HasPrefix (drop j (c # s)) sub"
          using k(4) False by (cases j) auto
      qed
      moreover have "indexFrom i (c # s) sub = i + int (Suc k)" using k(2) False by simp
      moreover have "HasPrefix (drop (Suc k) (c # s)) sub" using k(3) by simp
      moreover have "Suc k \<le> length (c # s)" using k(1) by simp
      ultimately show ?thesis by blast
    qed
  qed
qed

lemma Index_cases:
  "(Index s sub = - 1 \<and> (\<forall>j \<le> length s. \<not> HasPrefix (drop j s) sub))
   \<or> (\<exists>k \<le> length s. Index s sub = int k \<and> HasPrefix (drop k s) sub
         \<and> (\<forall>j < k. \<not> HasPrefix (drop j s) sub))"
  using indexFrom_cases [of 0 s sub] by (simp add: Index_def)

lemma occurs_iff: "(\<exists>pre post. s = pre @ sub @ post) \<longleftrightarrow> (\<exists>j \<le> length s. HasPrefix (drop j s) sub)"
proof
  assume "\<exists>pre post. s = pre @ sub @ post"
  then obtain pre post where s: "s = pre @ sub @ post" by blast
  then have "HasPrefix (drop (length pre) s) sub" by (simp add: HasPrefix_def)
  moreover have "length pre \<le> length s" using s by simp
  ultimately show "\<exists>j \<le> length s. HasPrefix (drop j s) sub" by blast
next
  assume "\<exists>j \<le> length s. HasPrefix (drop j s) sub"
  then obtain j r where "drop j s = sub @ r" by (auto simp: HasPrefix_iff)
  then have "s = take j s @ sub @ r" by (metis append_take_drop_id)
  then show "\<exists>pre post. s = pre @ sub @ post" by blast
qed

lemma Index_absent_iff: "Index s sub = - 1 \<longleftrightarrow> \<not> (\<exists>pre post. s = pre @ sub @ post)"
  using Index_cases [of s sub] by (auto simp: occurs_iff)


lemma Cut_char:
  "Cut s [c] =
     (if c \<in> set s
      then Some (takeWhile (\<lambda>x. x \<noteq> c) s, drop (Suc (length (takeWhile (\<lambda>x. x \<noteq> c) s))) s)
      else None)"
  by (induction s) (auto simp: HasPrefix_def)

lemma SplitN_space:
  "SplitN line '' '' 2 =
     (if CHR '' '' \<in> set line then [firstToken line, trailingRegion line] else [line])"
proof (cases line)
  case Nil
  then show ?thesis by (simp add: SplitN_def)
next
  case (Cons c s)
  then have "min 2 (length line + 1) - 1 = Suc 0" by simp
  then have "SplitN line '' '' 2 = splitAtMost (Suc 0) line '' ''"
    by (simp add: SplitN_def)
  then show ?thesis
    by (simp add: Cut_char firstToken_def trailingRegion_def)
qed

lemma firstToken_no_space: "CHR '' '' \<notin> set line \<Longrightarrow> firstToken line = line"
  by (auto simp: firstToken_def)

lemma trailingRegion_no_space: "CHR '' '' \<notin> set line \<Longrightarrow> trailingRegion line = []"
  by (simp add: trailingRegion_def firstToken_no_space)

lemma hd_SplitN_space: "hd (SplitN line '' '' 2) = firstToken line"
  by (simp add: SplitN_space firstToken_no_space)

lemma rest_SplitN_space:
  "(if length (SplitN line '' '' 2) > 1 then SplitN line '' '' 2 ! 1 else '''') = trailingRegion line"
  by (simp add: SplitN_space trailingRegion_no_space)

section \<open>Facts about TrimSpace\<close>

lemma stripOne_Some:
  "stripOne es s = Some r \<Longrightarrow> \<exists>e \<in> set es. s = e @ r"
  by (induction es) (auto simp: HasPrefix_iff split: if_splits)


lemma stripOne_foreign_head:
  assumes "c \<notin> set (concat es)" and "[] \<notin> set es"
  shows "stripOne es (c # r) = None"
proof (cases "stripOne es (c # r)")
  case None
  then show ?thesis .
next
  case (Some r')
  then obtain e where e: "e \<in> set es" "c # r = e @ r'" using stripOne_Some by blast
  with assms(2) have "e \<noteq> []" by auto
  with e(2) have "c \<in> set e" by (cases e) auto
  with e(1) assms(1) show ?thesis by auto
qed

lemma stripAll_foreign_head:
  assumes "c \<notin> set (concat es)" and "[] \<notin> set es"
  shows "stripAll n es (c # r) = c # r"
  using stripOne_foreign_head [OF assms] by (cases n) simp_all

lemma stripAll_foreign_last:
  assumes "c \<notin> set (concat es)" and "[] \<notin> set es"
  shows "\<exists>y. stripAll n es (x @ [c]) = y @ [c]"
proof (induction n arbitrary: x)
  case 0
  show ?case by simp
next
  case (Suc n)
  show ?case
  proof (cases "stripOne es (x @ [c])")
    case None
    then show ?thesis by simp
  next
    case (Some r)
    then obtain e where e: "e \<in> set es" "x @ [c] = e @ r" using stripOne_Some by blast
    from e(1) assms(1) have ce: "c \<notin> set e" by auto
    have "r \<noteq> []"
    proof
      assume "r = []"
      with e(2) have "c \<in> set e" by (metis append_Nil2 in_set_conv_decomp)
      with ce show False ..
    qed
    then have "last r = c" using e(2) by (metis last_appendR last_snoc)
    with \<open>r \<noteq> []\<close> have "r = butlast r @ [c]" by (metis append_butlast_last_id)
    with Suc.IH [of "butlast r"] Some show ?thesis by (metis stripAll.simps(2) option.simps(5))
  qed
qed



lemma spaceEncodings_nonempty: "[] \<notin> set spaceEncodings"
  by (simp add: spaceEncodings_def)

lemma rev_spaceEncodings_nonempty: "[] \<notin> set (map rev spaceEncodings)"
  by (simp add: spaceEncodings_def)

lemma rev_spaceEncodings_bytes: "set (concat (map rev es)) = set (concat es)"
  by (induction es) auto

text \<open>A line that starts with a byte of no white-space encoding keeps that byte.\<close>

lemma TrimSpace_keeps_head:
  assumes "c \<notin> set (concat spaceEncodings)"
  shows "\<exists>r'. TrimSpace (c # r) = c # r'"
proof -
  have l: "trimLeftSpace (c # r) = c # r"
    unfolding trimLeftSpace_def
    by (rule stripAll_foreign_head [OF assms spaceEncodings_nonempty])
  have "c \<notin> set (concat (map rev spaceEncodings))"
    using assms unfolding rev_spaceEncodings_bytes .
  from stripAll_foreign_last [OF this rev_spaceEncodings_nonempty, of "length (c # r)" "rev r"]
  obtain y where "stripAll (length (c # r)) (map rev spaceEncodings) (rev r @ [c]) = y @ [c]"
    by blast
  then have "trimRightSpace (c # r) = c # rev y" by (simp add: trimRightSpace_def)
  with l show ?thesis by (simp add: TrimSpace_def)
qed

lemma HasPrefix_TrimSpace_head:
  assumes "c \<notin> set (concat spaceEncodings)"
  shows "HasPrefix (TrimSpace (c # r)) [d] \<longleftrightarrow> c = d"
proof -
  from TrimSpace_keeps_head [OF assms] obtain r' where "TrimSpace (c # r) = c # r'" by blast
  then show ?thesis by (simp add: HasPrefix_def)
qed



section \<open>Facts about the parser\<close>

lemma parseRuleLine_eq:
  "parseRuleLine line fromPrefix kind filterTag =
     (if matchesFilter (trailingRegion line) filterTag
      then (\<lparr>rule_Kind = kind,
             rule_Value = (if fromPrefix \<noteq> '''' then TrimPrefix (firstToken line) fromPrefix
                           else firstToken line),
             rule_Comment = trailingRegion line\<rparr>, True)
      else (zeroRule, False))"
  unfolding parseRuleLine_def Let_def hd_SplitN_space rest_SplitN_space by simp

lemma matchesFilter_iff:
  "matchesFilter rest filterTag \<longleftrightarrow>
     filterTag = '''' \<or>
     (HasPrefix (TrimSpace rest) ''@'' \<and>
      (\<exists>pre post. TrimSpace rest = pre @ (''@'' @ filterTag) @ post \<and> CHR ''#'' \<notin> set pre))"
proof (cases "filterTag = ''''")
  case True
  then show ?thesis by (simp add: matchesFilter_def)
next
  case False
  define t where "t = TrimSpace rest"
  define fs where "fs = ''@'' @ filterTag"
  have code: "matchesFilter rest filterTag \<longleftrightarrow>
      HasPrefix t ''@'' \<and> Index t fs \<noteq> - 1 \<and> (Index t ''#'' = - 1 \<or> Index t fs \<le> Index t ''#'')"
    using False by (auto simp: matchesFilter_def Let_def t_def fs_def)
  have hash: "\<And>j. j < length t \<Longrightarrow> HasPrefix (drop j t) ''#'' \<longleftrightarrow> t ! j = CHR ''#''"
    by (simp add: HasPrefix_def take_Suc_conv_app_nth hd_drop_conv_nth take_Suc)
  have hash_end: "\<not> HasPrefix (drop (length t) t) ''#''"
    by (simp add: HasPrefix_def)
  have spec: "(\<exists>pre post. t = pre @ fs @ post \<and> CHR ''#'' \<notin> set pre) \<longleftrightarrow>
      Index t fs \<noteq> - 1 \<and> (Index t ''#'' = - 1 \<or> Index t fs \<le> Index t ''#'')"
  proof
    assume "\<exists>pre post. t = pre @ fs @ post \<and> CHR ''#'' \<notin> set pre"
    then obtain pre post where t: "t = pre @ fs @ post" and nh: "CHR ''#'' \<notin> set pre" by blast
    have occ: "HasPrefix (drop (length pre) t) fs" using t by (simp add: HasPrefix_def)
    have lp: "length pre \<le> length t" using t by simp
    from Index_cases [of t fs] occ lp obtain k where
      k: "k \<le> length t" "Index t fs = int k" "\<forall>j<k. \<not> HasPrefix (drop j t) fs"
      by blast
    have kp: "k \<le> length pre"
    proof (rule ccontr)
      assume "\<not> k \<le> length pre"
      then have "length pre < k" by simp
      with k(3) occ show False by blast
    qed
    have "Index t ''#'' = - 1 \<or> int k \<le> Index t ''#''"
    proof (rule ccontr)
      assume neg: "\<not> (Index t ''#'' = - 1 \<or> int k \<le> Index t ''#'')"
      with Index_cases [of t "''#''"] obtain m where
        m: "m \<le> length t" "Index t ''#'' = int m" "HasPrefix (drop m t) ''#''" by auto
      from neg m(2) have mk: "m < k" by simp
      with kp have mp: "m < length pre" by simp
      with lp have "m < length t" by simp
      with hash m(3) have "t ! m = CHR ''#''" by simp
      with t mp have "pre ! m = CHR ''#''" by (simp add: nth_append)
      with mp nh show False by (metis nth_mem)
    qed
    with k(2) show "Index t fs \<noteq> - 1 \<and> (Index t ''#'' = - 1 \<or> Index t fs \<le> Index t ''#'')"
      by simp
  next
    assume a: "Index t fs \<noteq> - 1 \<and> (Index t ''#'' = - 1 \<or> Index t fs \<le> Index t ''#'')"
    with Index_cases [of t fs] obtain k where
      k: "k \<le> length t" "Index t fs = int k" "HasPrefix (drop k t) fs" by auto
    from k(3) obtain post where "drop k t = fs @ post" by (auto simp: HasPrefix_iff)
    then have t: "t = take k t @ fs @ post" by (metis append_take_drop_id)
    have "CHR ''#'' \<notin> set (take k t)"
    proof
      assume "CHR ''#'' \<in> set (take k t)"
      then obtain j where j: "j < length (take k t)" "take k t ! j = CHR ''#''"
        by (metis in_set_conv_nth)
      then have jk: "j < k" and jt: "j < length t" and tj: "t ! j = CHR ''#''" by simp_all
      from hash jt tj have hp: "HasPrefix (drop j t) ''#''" by simp
      from Index_cases [of t "''#''"] hp jt obtain m where
        m: "Index t ''#'' = int m" "\<forall>i<m. \<not> HasPrefix (drop i t) ''#''"
        by (metis less_imp_le_nat)
      from m(2) hp have "m \<le> j" by (meson not_le_imp_less)
      with jk a k(2) m(1) show False by simp
    qed
    with t show "\<exists>pre post. t = pre @ fs @ post \<and> CHR ''#'' \<notin> set pre" by blast
  qed
  from code spec False show ?thesis unfolding t_def fs_def by blast
qed

lemma Parse_eq:
  "Parse n getter content filterTag =
     parseLines (subParse n getter) getter filterTag (Split content newline) []"
  by (cases n) (simp_all add: subParse_def)

lemma appendRule_acc: "appendRule items r = items @ appendRule [] r"
  by (cases r) (simp add: appendRule_def)

lemma parseLines_Cons:
  "parseLines sub g f (raw # rest) items =
     (case parseLine sub g f raw of
        None \<Rightarrow> None
      | Some (Inl e) \<Rightarrow> Some (Inl e)
      | Some (Inr a) \<Rightarrow> parseLines sub g f rest (items @ a))"
  by (simp add: parseLine_def Let_def appendRule_acc [of items] split: option.splits sum.splits)

declare parseLines.simps(2) [simp del]

lemma parseLines_append:
  "parseLines sub g f (xs @ ys) items =
     (case parseLines sub g f xs items of
        None \<Rightarrow> None
      | Some (Inl e) \<Rightarrow> Some (Inl e)
      | Some (Inr a) \<Rightarrow> parseLines sub g f ys a)"
proof (induction xs arbitrary: items)
  case Nil
  show ?case by simp
next
  case (Cons raw xs)
  show ?case
    unfolding append_Cons parseLines_Cons
    by (simp add: Cons.IH split: option.splits sum.splits)
qed

lemma parseLines_acc:
  "parseLines sub g f ls items =
     (case parseLines sub g f ls [] of
        None \<Rightarrow> None
      | Some (Inl e) \<Rightarrow> Some (Inl e)
      | Some (Inr b) \<Rightarrow> Some (Inr (items @ b)))"
proof (induction ls arbitrary: items)
  case Nil
  show ?case by simp
next
  case (Cons raw ls)
  show ?case
  proof (cases "parseLine sub g f raw")
    case None
    then show ?thesis by (simp add: parseLines_Cons)
  next
    case (Some r)
    show ?thesis
    proof (cases r)
      case (Inl e)
      with Some show ?thesis by (simp add: parseLines_Cons)
    next
      case (Inr a)
      have l: "parseLines sub g f (raw # ls) items = parseLines sub g f ls (items @ a)"
        using Some Inr by (simp add: parseLines_Cons)
      have r: "parseLines sub g f (raw # ls) [] = parseLines sub g f ls a"
        using Some Inr by (simp add: parseLines_Cons)
      show ?thesis
        unfolding l r
        by (simp add: Cons.IH [of "items @ a"] Cons.IH [of a] split: option.splits sum.splits)
    qed
  qed
qed

lemma HasPrefix_firstToken:
  assumes "HasPrefix line p" and "CHR '' '' \<notin> set p"
  shows "HasPrefix (firstToken line) p"
proof -
  from assms(1) obtain r where "line = p @ r" by (auto simp: HasPrefix_iff)
  moreover have "\<forall>x \<in> set p. x \<noteq> CHR '' ''" using assms(2) by auto
  ultimately have "firstToken line = p @ takeWhile (\<lambda>c. c \<noteq> CHR '' '') r"
    by (simp add: firstToken_def)
  then show ?thesis by (simp add: HasPrefix_iff)
qed

lemma TrimPrefix_firstToken:
  assumes "HasPrefix line p" and "CHR '' '' \<notin> set p"
  shows "TrimPrefix (firstToken line) p = drop (length p) (firstToken line)"
  using HasPrefix_firstToken [OF assms] by (simp add: TrimPrefix_def)

lemma parseLine_plain:
  assumes "\<not> HasPrefix (TrimSpace raw) ''include:''"
  shows "parseLine sub g f raw = Some (Inr (spec_classify f (TrimSpace raw)))"
proof -
  define line where "line = TrimSpace raw"
  have tp: "\<And>p. HasPrefix line p \<Longrightarrow> CHR '' '' \<notin> set p \<Longrightarrow>
      TrimPrefix (firstToken line) p = drop (length p) (firstToken line)"
    by (rule TrimPrefix_firstToken)
  have "parseLines sub g f [raw] [] = Some (Inr (spec_classify f line))"
    using assms tp [of "''domain:''"] tp [of "''full:''"] tp [of "''keyword:''"]
      tp [of "''regexp:''"]
    by (simp add: parseLines.simps(2) line_def [symmetric] Let_def spec_classify_def
        parseRuleLine_eq appendRule_def)
  then show ?thesis by (simp add: parseLine_def line_def)
qed

lemma parseLines_plain:
  assumes "\<forall>raw \<in> set ls. \<not> HasPrefix (TrimSpace raw) ''include:''"
  shows "parseLines sub g f ls items =
           Some (Inr (items @ concat (map (\<lambda>raw. spec_classify f (TrimSpace raw)) ls)))"
  using assms
proof (induction ls arbitrary: items)
  case Nil
  show ?case by simp
next
  case (Cons raw ls)
  then show ?case by (simp add: parseLines_Cons parseLine_plain)
qed

lemma Parse_plain:
  assumes "\<forall>raw \<in> set (Split content newline). \<not> HasPrefix (TrimSpace raw) ''include:''"
  shows "Parse n g content f =
           Some (Inr (concat (map (\<lambda>raw. spec_classify f (TrimSpace raw)) (Split content newline))))"
  using parseLines_plain [OF assms] by (simp add: Parse_eq)

section \<open>Properties of the parser\<close>

lemma Split_one_line:
  "CHR 0x0A \<notin> set s \<Longrightarrow> Split s newline = [s]"
  by (cases s) (simp_all add: Split_def newline_def Cut_char)

lemma spec_classify_cn:
  "spec_classify ''cn'' ''domain:example.com @cn'' =
     [ruleItem \<lparr>rule_Kind = RuleDomainSuffix, rule_Value = ''example.com'',
                rule_Comment = ''@cn''\<rparr>]"
  by code_simp

lemma spec_classify_us: "spec_classify ''us'' ''domain:example.com @cn'' = []"
  by code_simp

lemma spec_classify_all:
  "spec_classify '''' ''domain:example.com @cn'' =
     [ruleItem \<lparr>rule_Kind = RuleDomainSuffix, rule_Value = ''example.com'',
                rule_Comment = ''@cn''\<rparr>]"
  by code_simp

lemma TrimSpace_example_cn: "TrimSpace ''domain:example.com @cn'' = ''domain:example.com @cn''"
  by code_simp

lemma Parse_example_cn:
  "Parse n g ''domain:example.com @cn'' f =
     Some (Inr (spec_classify f ''domain:example.com @cn''))"
proof -
  have s: "Split ''domain:example.com @cn'' newline = [''domain:example.com @cn'']"
    by (rule Split_one_line) simp
  have "\<forall>raw \<in> set (Split ''domain:example.com @cn'' newline).
      \<not> HasPrefix (TrimSpace raw) ''include:''"
    unfolding s by (simp add: TrimSpace_example_cn HasPrefix_def)
  from Parse_plain [OF this] show ?thesis by (simp add: s TrimSpace_example_cn)
qed

lemma Parse_example_cnx:
  "Parse n g ''domain:example.com @cnx'' ''cn'' =
     Some (Inr [ruleItem \<lparr>rule_Kind = RuleDomainSuffix, rule_Value = ''example.com'',
                          rule_Comment = ''@cnx''\<rparr>])"
proof -
  have s: "Split ''domain:example.com @cnx'' newline = [''domain:example.com @cnx'']"
    by (rule Split_one_line) simp
  have t: "TrimSpace ''domain:example.com @cnx'' = ''domain:example.com @cnx''" by code_simp
  have c: "spec_classify ''cn'' ''domain:example.com @cnx'' =
      [ruleItem \<lparr>rule_Kind = RuleDomainSuffix, rule_Value = ''example.com'',
                 rule_Comment = ''@cnx''\<rparr>]"
    by code_simp
  have "\<forall>raw \<in> set (Split ''domain:example.com @cnx'' newline).
      \<not> HasPrefix (TrimSpace raw) ''include:''"
    unfolding s by (simp add: t HasPrefix_def)
  from Parse_plain [OF this] show ?thesis by (simp add: s t c)
qed

text \<open>
  C4 as the code has it. With an empty filter tag every rule line passes. With a non-empty
  tag a rule line passes exactly when its trailing region, trimmed of white space, starts
  with \<open>@\<close> and contains the text \<open>@TAG\<close> with no \<open>#\<close> before it. The text is looked for
  as a substring, not as a token of its own: the line \<open>domain:example.com @cnx\<close> passes
  for the tag \<open>cn\<close>. The line \<open>domain:example.com @cn\<close> is included for the tag \<open>cn\<close>,
  excluded for \<open>us\<close> and included for the empty tag.
\<close>

theorem C4_filter_tag:
  "(snd (parseRuleLine line fromPrefix kind filterTag) \<longleftrightarrow>
      filterTag = '''' \<or>
      (HasPrefix (TrimSpace (trailingRegion line)) ''@'' \<and>
       (\<exists>pre post. TrimSpace (trailingRegion line) = pre @ (''@'' @ filterTag) @ post
          \<and> CHR ''#'' \<notin> set pre)))
   \<and> Parse n g ''domain:example.com @cn'' ''cn'' =
       Some (Inr [ruleItem \<lparr>rule_Kind = RuleDomainSuffix, rule_Value = ''example.com'',
                            rule_Comment = ''@cn''\<rparr>])
   \<and> Parse n g ''domain:example.com @cn'' ''us'' = Some (Inr [])
   \<and> Parse n g ''domain:example.com @cn'' '''' =
       Some (Inr [ruleItem \<lparr>rule_Kind = RuleDomainSuffix, rule_Value = ''example.com'',
                            rule_Comment = ''@cn''\<rparr>])
   \<and> Parse n g ''domain:example.com @cnx'' ''cn'' =
       Some (Inr [ruleItem \<lparr>rule_Kind = RuleDomainSuffix, rule_Value = ''example.com'',
                            rule_Comment = ''@cnx''\<rparr>])"
proof -
  have "snd (parseRuleLine line fromPrefix kind filterTag) \<longleftrightarrow>
      matchesFilter (trailingRegion line) filterTag"
    by (simp add: parseRuleLine_eq)
  then show ?thesis
    by (simp add: matchesFilter_iff Parse_example_cn Parse_example_cnx spec_classify_cn
        spec_classify_us spec_classify_all)
qed

theorem C4_filter_tag_witness:
  "snd (parseRuleLine ''domain:example.com @ads @cn # note'' ''domain:'' RuleDomainSuffix ''cn'')
   \<and> snd (parseRuleLine ''domain:example.com @x@cn'' ''domain:'' RuleDomainSuffix ''cn'')
   \<and> \<not> snd (parseRuleLine ''domain:example.com @ads # @cn'' ''domain:'' RuleDomainSuffix ''cn'')
   \<and> Parse 0 noMembers ''domain:example.com @cn'' ''us'' = Some (Inr [])"
proof -
  have t: "TrimSpace (trailingRegion ''domain:example.com @ads @cn # note'') = ''@ads @cn # note''"
    by code_simp
  have "TrimSpace (trailingRegion ''domain:example.com @ads @cn # note'') =
      ''@ads '' @ (''@'' @ ''cn'') @ '' # note'' \<and> CHR ''#'' \<notin> set ''@ads ''"
    by (simp add: t)
  then have "\<exists>pre post. TrimSpace (trailingRegion ''domain:example.com @ads @cn # note'') =
      pre @ (''@'' @ ''cn'') @ post \<and> CHR ''#'' \<notin> set pre"
    by blast
  moreover have "HasPrefix (TrimSpace (trailingRegion ''domain:example.com @ads @cn # note'')) ''@''"
    by (simp add: t HasPrefix_def)
  ultimately have first:
    "snd (parseRuleLine ''domain:example.com @ads @cn # note'' ''domain:'' RuleDomainSuffix ''cn'')"
    using C4_filter_tag [of "''domain:example.com @ads @cn # note''" "''domain:''"
        RuleDomainSuffix "''cn''" 0 noMembers]
    by blast
  have t2: "TrimSpace (trailingRegion ''domain:example.com @x@cn'') = ''@x@cn''" by code_simp
  have "TrimSpace (trailingRegion ''domain:example.com @x@cn'') = ''@x'' @ (''@'' @ ''cn'') @ ''''
      \<and> CHR ''#'' \<notin> set ''@x''"
    by (simp add: t2)
  then have "\<exists>pre post. TrimSpace (trailingRegion ''domain:example.com @x@cn'') =
      pre @ (''@'' @ ''cn'') @ post \<and> CHR ''#'' \<notin> set pre"
    by blast
  moreover have "HasPrefix (TrimSpace (trailingRegion ''domain:example.com @x@cn'')) ''@''"
    by (simp add: t2 HasPrefix_def)
  ultimately have second:
    "snd (parseRuleLine ''domain:example.com @x@cn'' ''domain:'' RuleDomainSuffix ''cn'')"
    using C4_filter_tag [of "''domain:example.com @x@cn''" "''domain:''"
        RuleDomainSuffix "''cn''" 0 noMembers]
    by blast
  have third:
    "\<not> snd (parseRuleLine ''domain:example.com @ads # @cn'' ''domain:'' RuleDomainSuffix ''cn'')"
    by code_simp
  from C4_filter_tag [of _ _ _ _ 0 noMembers]
  have "Parse 0 noMembers ''domain:example.com @cn'' ''us'' = Some (Inr [])" by blast
  with first second third show ?thesis by blast
qed

text \<open>
  The claim as stated fails in two ways, both on the tag \<open>cn\<close>. On
  \<open>domain:example.com foo @cn\<close> the trailing region \<open>foo @cn\<close> holds the token \<open>@cn\<close>
  with no \<open>#\<close> before it, and the line is excluded, because the region does not start
  with \<open>@\<close>. On \<open>domain:example.com @cnx\<close> the trailing region has the single token
  \<open>@cnx\<close>, so no token \<open>@cn\<close>, and the line is included, because \<open>@cn\<close> is a substring.
\<close>

theorem C4_counterexample:
  "trailingRegion ''domain:example.com foo @cn'' = ''foo '' @ ''@cn'' @ ''''
   \<and> Split (trailingRegion ''domain:example.com foo @cn'') '' '' = [''foo'', ''@cn'']
   \<and> CHR ''#'' \<notin> set ''foo ''
   \<and> \<not> snd (parseRuleLine ''domain:example.com foo @cn'' ''domain:'' RuleDomainSuffix ''cn'')
   \<and> Parse 0 noMembers ''domain:example.com foo @cn'' ''cn'' = Some (Inr [])
   \<and> Split (trailingRegion ''domain:example.com @cnx'') '' '' = [''@cnx'']
   \<and> snd (parseRuleLine ''domain:example.com @cnx'' ''domain:'' RuleDomainSuffix ''cn'')
   \<and> Parse 0 noMembers ''domain:example.com @cnx'' ''cn'' =
       Some (Inr [ruleItem \<lparr>rule_Kind = RuleDomainSuffix, rule_Value = ''example.com'',
                            rule_Comment = ''@cnx''\<rparr>])"
  by code_simp

lemma parseLines_plain_position:
  assumes res: "parseLines sub g f (before @ raw # after) [] = Some (Inr items)"
    and plain: "\<not> HasPrefix (TrimSpace raw) ''include:''"
  shows "\<exists>a b. parseLines sub g f before [] = Some (Inr a)
           \<and> parseLines sub g f after [] = Some (Inr b)
           \<and> items = a @ spec_classify f (TrimSpace raw) @ b"
proof -
  from res obtain a where a: "parseLines sub g f before [] = Some (Inr a)"
    and r1: "parseLines sub g f (raw # after) a = Some (Inr items)"
    by (auto simp: parseLines_append split: option.splits sum.splits)
  from r1 have r2: "parseLines sub g f after (a @ spec_classify f (TrimSpace raw)) = Some (Inr items)"
    by (simp add: parseLines_Cons parseLine_plain [OF plain])
  then obtain b where b: "parseLines sub g f after [] = Some (Inr b)"
    and "items = (a @ spec_classify f (TrimSpace raw)) @ b"
    by (subst (asm) parseLines_acc) (auto split: option.splits sum.splits)
  with a show ?thesis by simp
qed

lemma surge_suffix_example:
  "RenderSurge parse [ruleItem \<lparr>rule_Kind = RuleDomainSuffix, rule_Value = ''example.com'',
                                 rule_Comment = ''''\<rparr>] = ''DOMAIN-SUFFIX,example.com''"
proof -
  have "\<not> HasPrefix (TrimSpace ''DOMAIN-SUFFIX,example.com'') ''#''" by code_simp
  then show ?thesis
    by (simp add: RenderSurge_def surgeLines_def renderLoop_def renderStep_def ruleItem_def
        renderSurgeRule_def appendComment_def)
qed

lemma surge_full_example:
  "RenderSurge parse [ruleItem \<lparr>rule_Kind = RuleDomain, rule_Value = ''example.com'',
                                 rule_Comment = ''''\<rparr>] = ''DOMAIN,example.com''"
proof -
  have "\<not> HasPrefix (TrimSpace ''DOMAIN,example.com'') ''#''" by code_simp
  then show ?thesis
    by (simp add: RenderSurge_def surgeLines_def renderLoop_def renderStep_def ruleItem_def
        renderSurgeRule_def appendComment_def)
qed

lemma Parse_single_plain_line:
  assumes "CHR 0x0A \<notin> set s" and "TrimSpace s = s" and "\<not> HasPrefix s ''include:''"
  shows "Parse n g s f = Some (Inr (spec_classify f s))"
proof -
  have s: "Split s newline = [s]" by (rule Split_one_line [OF assms(1)])
  have "\<forall>raw \<in> set (Split s newline). \<not> HasPrefix (TrimSpace raw) ''include:''"
    unfolding s using assms(2,3) by simp
  from Parse_plain [OF this] show ?thesis by (simp add: s assms(2))
qed

lemma Parse_domain_example:
  "Parse n g ''domain:example.com'' '''' =
     Some (Inr [ruleItem \<lparr>rule_Kind = RuleDomainSuffix, rule_Value = ''example.com'',
                          rule_Comment = ''''\<rparr>])"
proof -
  have "TrimSpace ''domain:example.com'' = ''domain:example.com''" by code_simp
  moreover have "\<not> HasPrefix ''domain:example.com'' ''include:''" by code_simp
  moreover have "spec_classify '''' ''domain:example.com'' =
      [ruleItem \<lparr>rule_Kind = RuleDomainSuffix, rule_Value = ''example.com'',
                 rule_Comment = ''''\<rparr>]" by code_simp
  ultimately show ?thesis using Parse_single_plain_line [of "''domain:example.com''" n g "''''"]
    by simp
qed

lemma Parse_full_example:
  "Parse n g ''full:example.com'' '''' =
     Some (Inr [ruleItem \<lparr>rule_Kind = RuleDomain, rule_Value = ''example.com'',
                          rule_Comment = ''''\<rparr>])"
proof -
  have "TrimSpace ''full:example.com'' = ''full:example.com''" by code_simp
  moreover have "\<not> HasPrefix ''full:example.com'' ''include:''" by code_simp
  moreover have "spec_classify '''' ''full:example.com'' =
      [ruleItem \<lparr>rule_Kind = RuleDomain, rule_Value = ''example.com'',
                 rule_Comment = ''''\<rparr>]" by code_simp
  ultimately show ?thesis using Parse_single_plain_line [of "''full:example.com''" n g "''''"]
    by simp
qed

text \<open>
  C8. A line that is not an include directive contributes its classification
  \<open>spec_classify\<close>: nothing when blank, a comment item when it starts with \<open>#\<close>, and
  otherwise, when it passes the filter, one rule of the kind its type prefix names (the
  domain-suffix kind without a prefix), with the first token stripped of the prefix as value
  and the text after the first space as comment. A text with no include directive is parsed,
  at any bound on the include depth, to the classifications of its lines in order; in any
  text that is parsed, such a line contributes its classification at its position. The
  Surge dialect renders the parse of \<open>domain:example.com\<close> as \<open>DOMAIN-SUFFIX,example.com\<close>
  and of \<open>full:example.com\<close> as \<open>DOMAIN,example.com\<close>.
\<close>

theorem C8_line_classification:
  "(\<not> HasPrefix (TrimSpace raw) ''include:'' \<longrightarrow>
      parseLine sub g f raw = Some (Inr (spec_classify f (TrimSpace raw))))
   \<and> ((\<forall>l \<in> set (Split content newline). \<not> HasPrefix (TrimSpace l) ''include:'') \<longrightarrow>
        Parse n g content f =
          Some (Inr (concat (map (\<lambda>l. spec_classify f (TrimSpace l)) (Split content newline)))))
   \<and> (Parse n g content f = Some (Inr items) \<and> Split content newline = before @ raw # after
        \<and> \<not> HasPrefix (TrimSpace raw) ''include:'' \<longrightarrow>
        (\<exists>a b. parseLines (subParse n g) g f before [] = Some (Inr a)
           \<and> parseLines (subParse n g) g f after [] = Some (Inr b)
           \<and> items = a @ spec_classify f (TrimSpace raw) @ b))
   \<and> (\<exists>parsed. Parse n g ''domain:example.com'' '''' = Some (Inr parsed)
        \<and> RenderSurge parse parsed = ''DOMAIN-SUFFIX,example.com'')
   \<and> (\<exists>parsed. Parse n g ''full:example.com'' '''' = Some (Inr parsed)
        \<and> RenderSurge parse parsed = ''DOMAIN,example.com'')"
proof (intro conjI impI)
  assume "\<not> HasPrefix (TrimSpace raw) ''include:''"
  then show "parseLine sub g f raw = Some (Inr (spec_classify f (TrimSpace raw)))"
    by (rule parseLine_plain)
next
  assume "\<forall>l \<in> set (Split content newline). \<not> HasPrefix (TrimSpace l) ''include:''"
  then show "Parse n g content f =
      Some (Inr (concat (map (\<lambda>l. spec_classify f (TrimSpace l)) (Split content newline))))"
    by (rule Parse_plain)
next
  assume a: "Parse n g content f = Some (Inr items) \<and> Split content newline = before @ raw # after
        \<and> \<not> HasPrefix (TrimSpace raw) ''include:''"
  then have "parseLines (subParse n g) g f (before @ raw # after) [] = Some (Inr items)"
    by (auto simp: Parse_eq)
  from parseLines_plain_position [OF this] a
  show "\<exists>a b. parseLines (subParse n g) g f before [] = Some (Inr a)
           \<and> parseLines (subParse n g) g f after [] = Some (Inr b)
           \<and> items = a @ spec_classify f (TrimSpace raw) @ b"
    by blast
next
  show "\<exists>parsed. Parse n g ''domain:example.com'' '''' = Some (Inr parsed)
        \<and> RenderSurge parse parsed = ''DOMAIN-SUFFIX,example.com''"
    using Parse_domain_example surge_suffix_example by blast
next
  show "\<exists>parsed. Parse n g ''full:example.com'' '''' = Some (Inr parsed)
        \<and> RenderSurge parse parsed = ''DOMAIN,example.com''"
    using Parse_full_example surge_full_example by blast
qed

theorem C8_line_classification_witness:
  "Parse 0 noMembers sampleList '''' =
     Some (Inr [commentItem ''# sample'',
                ruleItem \<lparr>rule_Kind = RuleDomain, rule_Value = ''a.example'',
                          rule_Comment = ''@cn''\<rparr>,
                ruleItem \<lparr>rule_Kind = RuleDomainKeyword, rule_Value = ''shop'',
                          rule_Comment = ''# k''\<rparr>,
                ruleItem \<lparr>rule_Kind = RuleDomainRegex, rule_Value = ''x.y'',
                          rule_Comment = ''''\<rparr>,
                ruleItem \<lparr>rule_Kind = RuleDomainSuffix, rule_Value = ''b.example'',
                          rule_Comment = ''''\<rparr>])
   \<and> parseLine (subParse 0 noMembers) noMembers ''cn'' ''  full:a.example @cn  '' =
       Some (Inr [ruleItem \<lparr>rule_Kind = RuleDomain, rule_Value = ''a.example'',
                            rule_Comment = ''@cn''\<rparr>])
   \<and> (\<exists>a b. parseLines (subParse 0 noMembers) noMembers ''''
                [''# sample'', ''full:a.example @cn'', ''''] [] = Some (Inr a)
          \<and> parseLines (subParse 0 noMembers) noMembers ''''
                [''regexp:x.y'', ''b.example''] [] = Some (Inr b)
          \<and> [commentItem ''# sample'',
                ruleItem \<lparr>rule_Kind = RuleDomain, rule_Value = ''a.example'',
                          rule_Comment = ''@cn''\<rparr>,
                ruleItem \<lparr>rule_Kind = RuleDomainKeyword, rule_Value = ''shop'',
                          rule_Comment = ''# k''\<rparr>,
                ruleItem \<lparr>rule_Kind = RuleDomainRegex, rule_Value = ''x.y'',
                          rule_Comment = ''''\<rparr>,
                ruleItem \<lparr>rule_Kind = RuleDomainSuffix, rule_Value = ''b.example'',
                          rule_Comment = ''''\<rparr>]
              = a @ [ruleItem \<lparr>rule_Kind = RuleDomainKeyword, rule_Value = ''shop'',
                          rule_Comment = ''# k''\<rparr>] @ b)"
proof -
  let ?items = "[commentItem ''# sample'',
                ruleItem \<lparr>rule_Kind = RuleDomain, rule_Value = ''a.example'',
                          rule_Comment = ''@cn''\<rparr>,
                ruleItem \<lparr>rule_Kind = RuleDomainKeyword, rule_Value = ''shop'',
                          rule_Comment = ''# k''\<rparr>,
                ruleItem \<lparr>rule_Kind = RuleDomainRegex, rule_Value = ''x.y'',
                          rule_Comment = ''''\<rparr>,
                ruleItem \<lparr>rule_Kind = RuleDomainSuffix, rule_Value = ''b.example'',
                          rule_Comment = ''''\<rparr>]"
  have h: "\<forall>l \<in> set (Split sampleList newline). \<not> HasPrefix (TrimSpace l) ''include:''"
    by code_simp
  have v: "concat (map (\<lambda>l. spec_classify '''' (TrimSpace l)) (Split sampleList newline)) = ?items"
    by code_simp
  have sp: "Split sampleList newline =
      [''# sample'', ''full:a.example @cn'', ''''] @ ''  keyword:shop # k''
        # [''regexp:x.y'', ''b.example'']"
    by code_simp
  have k: "\<not> HasPrefix (TrimSpace ''  keyword:shop # k'') ''include:''" by code_simp
  have kc: "spec_classify '''' (TrimSpace ''  keyword:shop # k'') =
      [ruleItem \<lparr>rule_Kind = RuleDomainKeyword, rule_Value = ''shop'', rule_Comment = ''# k''\<rparr>]"
    by code_simp
  have fl: "\<not> HasPrefix (TrimSpace ''  full:a.example @cn  '') ''include:''" by code_simp
  have fc: "spec_classify ''cn'' (TrimSpace ''  full:a.example @cn  '') =
      [ruleItem \<lparr>rule_Kind = RuleDomain, rule_Value = ''a.example'', rule_Comment = ''@cn''\<rparr>]"
    by code_simp
  note inst = C8_line_classification [of "''  keyword:shop # k''" "subParse 0 noMembers" noMembers
      "''''" sampleList 0 "?items" "[''# sample'', ''full:a.example @cn'', '''']"
      "[''regexp:x.y'', ''b.example'']"]
  from inst h have p: "Parse 0 noMembers sampleList '''' =
      Some (Inr (concat (map (\<lambda>l. spec_classify '''' (TrimSpace l)) (Split sampleList newline))))"
    by blast
  then have p': "Parse 0 noMembers sampleList '''' = Some (Inr ?items)" by (simp only: v)
  from inst p' sp k have "\<exists>a b. parseLines (subParse 0 noMembers) noMembers ''''
                [''# sample'', ''full:a.example @cn'', ''''] [] = Some (Inr a)
          \<and> parseLines (subParse 0 noMembers) noMembers ''''
                [''regexp:x.y'', ''b.example''] [] = Some (Inr b)
          \<and> ?items = a @ spec_classify '''' (TrimSpace ''  keyword:shop # k'') @ b"
    by blast
  then have third: "\<exists>a b. parseLines (subParse 0 noMembers) noMembers ''''
                [''# sample'', ''full:a.example @cn'', ''''] [] = Some (Inr a)
          \<and> parseLines (subParse 0 noMembers) noMembers ''''
                [''regexp:x.y'', ''b.example''] [] = Some (Inr b)
          \<and> ?items = a @ [ruleItem \<lparr>rule_Kind = RuleDomainKeyword, rule_Value = ''shop'',
                          rule_Comment = ''# k''\<rparr>] @ b"
    by (simp only: kc)
  from C8_line_classification [of "''  full:a.example @cn  ''" "subParse 0 noMembers" noMembers
      "''cn''"] fl
  have "parseLine (subParse 0 noMembers) noMembers ''cn'' ''  full:a.example @cn  '' =
      Some (Inr (spec_classify ''cn'' (TrimSpace ''  full:a.example @cn  '')))"
    by blast
  then have first: "parseLine (subParse 0 noMembers) noMembers ''cn'' ''  full:a.example @cn  '' =
       Some (Inr [ruleItem \<lparr>rule_Kind = RuleDomain, rule_Value = ''a.example'',
                            rule_Comment = ''@cn''\<rparr>])"
    by (simp only: fc)
  from p' first third show ?thesis by blast
qed

















section \<open>Facts about the renderers\<close>

lemma renderLoop_Nil [simp]: "renderLoop render [] st = st"
  by (simp add: renderLoop_def)

lemma renderLoop_Cons [simp]:
  "renderLoop render (item # items) st = renderLoop render items (renderStep render st item)"
  by (simp add: renderLoop_def)

lemma renderLoop_append [simp]:
  "renderLoop render (xs @ ys) st = renderLoop render ys (renderLoop render xs st)"
  by (simp add: renderLoop_def)



lemma renderStep_comment:
  "item_Kind c = ItemComment \<Longrightarrow> fst (renderStep render st c) = fst st"
  by (cases st) (simp add: renderStep_def)

lemma renderLoop_comments:
  "\<forall>c \<in> set cs. item_Kind c = ItemComment \<Longrightarrow> fst (renderLoop render cs st) = fst st"
  by (induction cs arbitrary: st) (simp_all add: renderStep_comment)

lemma renderStep_ordinary_comment:
  assumes "item_Kind c = ItemComment" and "\<not> HasPrefix (TrimSpace (item_Comment c)) ''# include:''"
  shows "renderStep render (res, inc, pend) c = (res, inc, item_Comment c)"
  using assms by (simp add: renderStep_def)

lemma renderLoop_ordinary_comments:
  assumes "\<forall>c \<in> set cs. item_Kind c = ItemComment
             \<and> \<not> HasPrefix (TrimSpace (item_Comment c)) ''# include:''"
    and "cs \<noteq> []"
  shows "renderLoop render cs (res, inc, pend) = (res, inc, item_Comment (last cs))"
  using assms
proof (induction cs arbitrary: pend)
  case Nil
  then show ?case by simp
next
  case (Cons c cs)
  then show ?case by (cases "cs = []") (simp_all add: renderStep_ordinary_comment)
qed

lemma renderStep_rule:
  "renderStep render (res, inc, pend) (ruleItem r) =
     (if HasPrefix (TrimSpace (render r)) ''#'' then (res, inc, render r)
      else (res @ inc @ (if pend \<noteq> '''' then [pend] else []) @ [render r], [], ''''))"
  by (simp add: renderStep_def ruleItem_def Let_def)

lemma appendComment_extends: "\<exists>sfx. appendComment line comment = line @ sfx"
  by (simp add: appendComment_def)


lemma D_not_space: "CHR ''D'' \<notin> set (concat spaceEncodings)"
  by (simp add: spaceEncodings_def)


lemma enabled_line:
  "\<not> HasPrefix (TrimSpace (appendComment (CHR ''D'' # l) comment)) ''#''"
proof -
  from appendComment_extends [of "CHR ''D'' # l" comment] obtain sfx where
    "appendComment (CHR ''D'' # l) comment = CHR ''D'' # (l @ sfx)" by auto
  then show ?thesis by (simp add: HasPrefix_TrimSpace_head [OF D_not_space])
qed

lemma renderMihomoRule_enabled: "\<not> HasPrefix (TrimSpace (renderMihomoRule r)) ''#''"
  by (cases "rule_Kind r") (simp_all add: renderMihomoRule_def enabled_line)



lemma renderStep_shift:
  "renderStep render (res, inc, pend) item =
     (case renderStep render ([], inc, pend) item of
        (res', inc', pend') \<Rightarrow> (res @ res', inc', pend'))"
  by (simp add: renderStep_def Let_def split: option.splits)

lemma renderLoop_shift:
  "renderLoop render items (res, inc, pend) =
     (case renderLoop render items ([], inc, pend) of
        (res', inc', pend') \<Rightarrow> (res @ res', inc', pend'))"
proof (induction items arbitrary: res inc pend)
  case Nil
  show ?case by simp
next
  case (Cons item items)
  obtain r1 i1 p1 where s: "renderStep render ([], inc, pend) item = (r1, i1, p1)"
    by (cases "renderStep render ([], inc, pend) item") auto
  then have s': "renderStep render (res, inc, pend) item = (res @ r1, i1, p1)"
    by (subst renderStep_shift) simp
  obtain a b c where base: "renderLoop render items ([], i1, p1) = (a, b, c)"
    by (cases "renderLoop render items ([], i1, p1)") auto
  have l: "renderLoop render items (res @ r1, i1, p1) = ((res @ r1) @ a, b, c)"
    using Cons.IH [of "res @ r1" i1 p1] base by simp
  have r: "renderLoop render items (r1, i1, p1) = (r1 @ a, b, c)"
    using Cons.IH [of r1 i1 p1] base by simp
  show ?case
    unfolding renderLoop_Cons s s' l r by simp
qed

lemma renderLoop_after_flush:
  "res \<noteq> [] \<Longrightarrow>
   fst (renderLoop render items (res, [], '''')) = res @ fst (renderLoop render items ([], [], ''''))"
  by (subst renderLoop_shift) (simp split: prod.splits)









section \<open>Properties of the renderers\<close>




lemma renderLoop_comments_rule:
  assumes ord: "\<forall>c \<in> set cs. item_Kind c = ItemComment
             \<and> \<not> HasPrefix (TrimSpace (item_Comment c)) ''# include:''"
    and ne: "cs \<noteq> []"
    and st: "renderLoop render pre st0 = (res, inc, pend)"
  shows "renderLoop render (pre @ cs @ [ruleItem r]) st0 =
     (if HasPrefix (TrimSpace (render r)) ''#'' then (res, inc, render r)
      else (res @ inc @ (if item_Comment (last cs) \<noteq> '''' then [item_Comment (last cs)] else [])
              @ [render r], [], ''''))"
  by (simp add: st renderLoop_ordinary_comments [OF ord ne] renderStep_rule)

text \<open>
  C10 as the code has it. One pending ordinary comment is kept at a time. After a run of
  ordinary comments followed by a rule whose line is enabled, the output is the output of
  the items before, the pending include echoes, the last comment of the run unless it is
  empty, and the rule's line; the earlier comments of the run are not written. The
  Mihomo line of a rule is always enabled. In the Surge dialect a rule rendered
  commented-out replaces the pending comment: the output is then the same as without the
  run of comments. Comment items at the end of the sequence change no output.
\<close>

theorem C10_pending_comment:
  "((\<forall>c \<in> set cs. item_Kind c = ItemComment
        \<and> \<not> HasPrefix (TrimSpace (item_Comment c)) ''# include:'') \<and> cs \<noteq> [] \<longrightarrow>
      mihomoLines (pre @ cs @ [ruleItem r] @ post) =
        (case renderLoop renderMihomoRule pre ([], [], '''') of
           (res, inc, pend) \<Rightarrow>
             res @ inc @ (if item_Comment (last cs) \<noteq> '''' then [item_Comment (last cs)] else [])
               @ [renderMihomoRule r] @ mihomoLines post)
      \<and> (\<not> HasPrefix (TrimSpace (renderSurgeRule parse r)) ''#'' \<longrightarrow>
           surgeLines parse (pre @ cs @ [ruleItem r] @ post) =
             (case renderLoop (renderSurgeRule parse) pre ([], [], '''') of
                (res, inc, pend) \<Rightarrow>
                  res @ inc
                    @ (if item_Comment (last cs) \<noteq> '''' then [item_Comment (last cs)] else [])
                    @ [renderSurgeRule parse r] @ surgeLines parse post))
      \<and> (HasPrefix (TrimSpace (renderSurgeRule parse r)) ''#'' \<longrightarrow>
           surgeLines parse (pre @ cs @ [ruleItem r] @ post) =
             surgeLines parse (pre @ [ruleItem r] @ post)))
   \<and> ((\<forall>c \<in> set cs. item_Kind c = ItemComment) \<longrightarrow>
        surgeLines parse (items @ cs) = surgeLines parse items
        \<and> mihomoLines (items @ cs) = mihomoLines items)"
proof (intro conjI impI)
  assume "\<forall>c \<in> set cs. item_Kind c = ItemComment"
  then show "surgeLines parse (items @ cs) = surgeLines parse items"
    and "mihomoLines (items @ cs) = mihomoLines items"
    by (simp_all add: surgeLines_def mihomoLines_def renderLoop_comments)
next
  assume a: "(\<forall>c \<in> set cs. item_Kind c = ItemComment
        \<and> \<not> HasPrefix (TrimSpace (item_Comment c)) ''# include:'') \<and> cs \<noteq> []"
  then have ord: "\<forall>c \<in> set cs. item_Kind c = ItemComment
        \<and> \<not> HasPrefix (TrimSpace (item_Comment c)) ''# include:''" and ne: "cs \<noteq> []"
    by blast+
  obtain res inc pend where
    st: "renderLoop renderMihomoRule pre ([], [], '''') = (res, inc, pend)"
    by (cases "renderLoop renderMihomoRule pre ([], [], '''')") auto
  have "renderLoop renderMihomoRule (pre @ cs @ [ruleItem r] @ post) ([], [], '''') =
      renderLoop renderMihomoRule post
        (renderLoop renderMihomoRule (pre @ cs @ [ruleItem r]) ([], [], ''''))"
    by simp
  then show "mihomoLines (pre @ cs @ [ruleItem r] @ post) =
        (case renderLoop renderMihomoRule pre ([], [], '''') of
           (res, inc, pend) \<Rightarrow>
             res @ inc @ (if item_Comment (last cs) \<noteq> '''' then [item_Comment (last cs)] else [])
               @ [renderMihomoRule r] @ mihomoLines post)"
    unfolding mihomoLines_def renderLoop_comments_rule [OF ord ne st]
    by (simp add: st renderMihomoRule_enabled renderLoop_after_flush)
  obtain res' inc' pend' where
    st': "renderLoop (renderSurgeRule parse) pre ([], [], '''') = (res', inc', pend')"
    by (cases "renderLoop (renderSurgeRule parse) pre ([], [], '''')") auto
  have split: "renderLoop (renderSurgeRule parse) (pre @ cs @ [ruleItem r] @ post) ([], [], '''') =
      renderLoop (renderSurgeRule parse) post
        (renderLoop (renderSurgeRule parse) (pre @ cs @ [ruleItem r]) ([], [], ''''))"
    by simp
  show "surgeLines parse (pre @ cs @ [ruleItem r] @ post) =
             (case renderLoop (renderSurgeRule parse) pre ([], [], '''') of
                (res, inc, pend) \<Rightarrow>
                  res @ inc
                    @ (if item_Comment (last cs) \<noteq> '''' then [item_Comment (last cs)] else [])
                    @ [renderSurgeRule parse r] @ surgeLines parse post)"
    if "\<not> HasPrefix (TrimSpace (renderSurgeRule parse r)) ''#''"
    using that split unfolding surgeLines_def renderLoop_comments_rule [OF ord ne st']
    by (simp add: st' renderLoop_after_flush)
  show "surgeLines parse (pre @ cs @ [ruleItem r] @ post) =
      surgeLines parse (pre @ [ruleItem r] @ post)"
    if "HasPrefix (TrimSpace (renderSurgeRule parse r)) ''#''"
    using that split unfolding surgeLines_def renderLoop_comments_rule [OF ord ne st']
    by (simp add: st' renderStep_rule)
qed

text \<open>
  The claim as stated fails in the Surge dialect on two comments followed by the rule
  \<open>regexp:[a-z]+\.example\.com\<close> and a domain rule: the commented-out line of the regex
  rule replaces the pending comment, and the last comment \<open># b\<close> is not in the output.
\<close>

theorem C10_counterexample:
  "surgeLines sampleParse
     [commentItem ''# a'', commentItem ''# b'',
      ruleItem \<lparr>rule_Kind = RuleDomainRegex, rule_Value = classPlusExpr, rule_Comment = ''''\<rparr>,
      ruleItem \<lparr>rule_Kind = RuleDomainSuffix, rule_Value = ''x.example'', rule_Comment = ''''\<rparr>]
     = [''# DANGEROUS-REGEX,'' @ classPlusExpr, ''DOMAIN-SUFFIX,x.example'']
   \<and> ''# b'' \<notin> set (surgeLines sampleParse
     [commentItem ''# a'', commentItem ''# b'',
      ruleItem \<lparr>rule_Kind = RuleDomainRegex, rule_Value = classPlusExpr, rule_Comment = ''''\<rparr>,
      ruleItem \<lparr>rule_Kind = RuleDomainSuffix, rule_Value = ''x.example'', rule_Comment = ''''\<rparr>])"
  by code_simp

theorem C10_pending_comment_witness:
  "mihomoLines
     [commentItem ''# a'', commentItem ''# b'',
      ruleItem \<lparr>rule_Kind = RuleDomainRegex, rule_Value = classPlusExpr, rule_Comment = ''''\<rparr>,
      commentItem ''# tail'']
     = [''# b'', ''DOMAIN-REGEX,'' @ classPlusExpr]
   \<and> surgeLines sampleParse
       [commentItem ''# a'', commentItem ''# b'',
        ruleItem \<lparr>rule_Kind = RuleDomainSuffix, rule_Value = ''x.example'', rule_Comment = ''''\<rparr>,
        commentItem ''# tail'']
     = [''# b'', ''DOMAIN-SUFFIX,x.example'']
   \<and> surgeLines sampleParse
       [commentItem ''# a'', commentItem ''# b'',
        ruleItem \<lparr>rule_Kind = RuleDomainRegex, rule_Value = classPlusExpr, rule_Comment = ''''\<rparr>,
        commentItem ''# tail'']
     = []"
proof -
  define cs where "cs = [commentItem ''# a'', commentItem ''# b'']"
  define tail where "tail = [commentItem ''# tail'']"
  define rx where
    "rx = \<lparr>rule_Kind = RuleDomainRegex, rule_Value = classPlusExpr, rule_Comment = ''''\<rparr>"
  define rd where
    "rd = \<lparr>rule_Kind = RuleDomainSuffix, rule_Value = ''x.example'', rule_Comment = ''''\<rparr>"
  have ord: "(\<forall>c \<in> set cs. item_Kind c = ItemComment
        \<and> \<not> HasPrefix (TrimSpace (item_Comment c)) ''# include:'') \<and> cs \<noteq> []"
    unfolding cs_def by code_simp
  have tl: "\<forall>c \<in> set tail. item_Kind c = ItemComment" by (simp add: tail_def commentItem_def)
  have en: "\<not> HasPrefix (TrimSpace (renderSurgeRule sampleParse rd)) ''#''"
    unfolding rd_def by code_simp
  have dis: "HasPrefix (TrimSpace (renderSurgeRule sampleParse rx)) ''#''"
    unfolding rx_def by code_simp
  have lm: "renderMihomoRule rx = ''DOMAIN-REGEX,'' @ classPlusExpr"
    by (simp add: rx_def renderMihomoRule_def appendComment_def)
  have ls: "renderSurgeRule sampleParse rd = ''DOMAIN-SUFFIX,x.example''"
    by (simp add: rd_def renderSurgeRule_def appendComment_def)
  have lastc: "item_Comment (last cs) = ''# b''" by (simp add: cs_def commentItem_def)
  have init: "renderLoop render [] ([], [], '''') = ([], [], '''')" for render by simp
  have me: "mihomoLines [] = []" by (simp add: mihomoLines_def)
  have se: "surgeLines sampleParse [] = []" by (simp add: surgeLines_def)
  have sx: "surgeLines sampleParse [ruleItem rx] = []"
    by (simp add: surgeLines_def renderStep_rule dis)

  note m1 = C10_pending_comment [of cs "[]" rx tail sampleParse "[]"]
  from C10_pending_comment [of tail _ _ _ sampleParse "[]"] tl
  have mt: "mihomoLines tail = []" and st: "surgeLines sampleParse tail = []"
    by (simp_all add: me se)
  from m1 ord have "mihomoLines ([] @ cs @ [ruleItem rx] @ tail) =
      (case renderLoop renderMihomoRule [] ([], [], '''') of
         (res, inc, pend) \<Rightarrow>
           res @ inc @ (if item_Comment (last cs) \<noteq> '''' then [item_Comment (last cs)] else [])
             @ [renderMihomoRule rx] @ mihomoLines tail)"
    by blast
  then have first: "mihomoLines (cs @ [ruleItem rx] @ tail) = [''# b'', ''DOMAIN-REGEX,'' @ classPlusExpr]"
    by (simp add: init lastc lm mt)
  from m1 ord dis have "surgeLines sampleParse ([] @ cs @ [ruleItem rx] @ tail) =
      surgeLines sampleParse ([] @ [ruleItem rx] @ tail)"
    by blast
  moreover from C10_pending_comment [of tail _ _ _ sampleParse "[ruleItem rx]"] tl
  have "surgeLines sampleParse ([ruleItem rx] @ tail) = surgeLines sampleParse [ruleItem rx]"
    by blast
  ultimately have third: "surgeLines sampleParse (cs @ [ruleItem rx] @ tail) = []"
    by (simp add: sx)
  from C10_pending_comment [of cs "[]" rd tail sampleParse "[]"] ord en
  have "surgeLines sampleParse ([] @ cs @ [ruleItem rd] @ tail) =
      (case renderLoop (renderSurgeRule sampleParse) [] ([], [], '''') of
         (res, inc, pend) \<Rightarrow>
           res @ inc @ (if item_Comment (last cs) \<noteq> '''' then [item_Comment (last cs)] else [])
             @ [renderSurgeRule sampleParse rd] @ surgeLines sampleParse tail)"
    by blast
  then have second: "surgeLines sampleParse (cs @ [ruleItem rd] @ tail) =
      [''# b'', ''DOMAIN-SUFFIX,x.example'']"
    by (simp add: init lastc ls st)
  from first second third show ?thesis
    by (simp add: cs_def tail_def rx_def rd_def)
qed

end
